theory Spec2Isabelle
  imports Main "HOL-Library.AList"
begin

section \<open>Python values used by autoBackup.py\<close>

text \<open>
  A Python string is a sequence of Unicode code points, so a character is modelled by its
  code point and a string by a list of code points. \<open>ustr\<close> writes an ASCII literal as such
  a string.
\<close>

type_synonym pychar = nat
type_synonym pystr = "pychar list"

definition cp :: "char \<Rightarrow> pychar" where
  "cp ch = of_char ch"

definition ustr :: "string \<Rightarrow> pystr" where
  "ustr s = map cp s"

text \<open>
  The interpreter's character tables and its integer parser are not part of the repository.
  They are written out below for the code points 0..255; what the interpreter answers
  beyond that range is a parameter of the model, as is its limit on the number of digits
  of an integer literal.
\<close>

record interp =
  wide_alnum :: "pychar \<Rightarrow> bool"        \<comment> \<open>\<open>str.isalnum\<close> on code points from 256 on\<close>
  wide_space :: "pychar \<Rightarrow> bool"        \<comment> \<open>\<open>str.isspace\<close> on code points from 256 on\<close>
  other_int :: "pystr \<Rightarrow> int option"    \<comment> \<open>\<open>int(s)\<close> for \<open>s\<close> with a space or a non-ASCII character\<close>
  over_digit_limit :: "nat \<Rightarrow> bool"     \<comment> \<open>the interpreter's cap on the number of digits\<close>

text \<open>
  An interpreter with no alphanumeric and no space character beyond code point 255 and
  with the default digit limit of CPython, 4300. The worked runs use it; their strings
  stay below code point 256.
\<close>

definition latin1 :: interp where
  "latin1 = \<lparr> wide_alnum = (\<lambda>c. False), wide_space = (\<lambda>c. False),
              other_int = (\<lambda>s. None), over_digit_limit = (\<lambda>n. 4300 < n) \<rparr>"

text \<open>
  The exceptions that occur: \<open>IOFailure\<close> stands for any exception of class \<open>Exception\<close>
  raised by the filesystem or the network (OSError, IOError, SSHException);
  \<open>OverflowError\<close> is of class \<open>Exception\<close> too; \<open>KeyboardInterrupt\<close> is not, so
  \<open>except Exception\<close> lets it pass.
\<close>

datatype exn = ValueError | TypeError | OverflowError | IOFailure | KeyboardInterrupt

definition isalnum :: "interp \<Rightarrow> pychar \<Rightarrow> bool" where
  "isalnum py c =
     (if c < 256 then
        (48 \<le> c \<and> c \<le> 57) \<or> (65 \<le> c \<and> c \<le> 90) \<or> (97 \<le> c \<and> c \<le> 122) \<or>
        c \<in> {170, 178, 179, 181, 185, 186, 188, 189, 190} \<or>
        (192 \<le> c \<and> c \<le> 214) \<or> (216 \<le> c \<and> c \<le> 246) \<or> (248 \<le> c \<and> c \<le> 255)
      else wide_alnum py c)"

definition isspace :: "interp \<Rightarrow> pychar \<Rightarrow> bool" where
  "isspace py c =
     (if c < 256 then (9 \<le> c \<and> c \<le> 13) \<or> (28 \<le> c \<and> c \<le> 32) \<or> c = 133 \<or> c = 160
      else wide_space py c)"

text \<open>\<open>line.split()\<close>: the maximal runs of non-space characters, in order.\<close>

fun split_run :: "(pychar \<Rightarrow> bool) \<Rightarrow> pystr \<Rightarrow> pystr \<Rightarrow> pystr list" where
  "split_run sp cur [] = (if cur = [] then [] else [cur])"
| "split_run sp cur (c # cs) =
     (if sp c then (if cur = [] then split_run sp [] cs else cur # split_run sp [] cs)
      else split_run sp (cur @ [c]) cs)"

definition split_ws :: "interp \<Rightarrow> pystr \<Rightarrow> pystr list" where
  "split_ws py line = split_run (isspace py) [] line"

text \<open>
  \<open>int(s)\<close> in base ten for a string of ASCII characters without spaces: an optional sign,
  then digits, single underscores allowed between digits. \<open>None\<close> stands for ValueError.
\<close>

fun scan_digits :: "bool \<Rightarrow> nat \<Rightarrow> nat \<Rightarrow> pystr \<Rightarrow> (nat \<times> nat) option" where
  "scan_digits prev acc n [] = (if prev then Some (acc, n) else None)"
| "scan_digits prev acc n (c # cs) =
     (if 48 \<le> c \<and> c \<le> 57 then scan_digits True (acc * 10 + (c - 48)) (Suc n) cs
      else if c = 95 \<and> prev then scan_digits False acc n cs
      else None)"

definition ascii_int :: "interp \<Rightarrow> pystr \<Rightarrow> int option" where
  "ascii_int py s =
     (let (sgn, body) = (case s of [] \<Rightarrow> (1, [])
                          | c # r \<Rightarrow> if c = 43 then (1, r) else if c = 45 then (- 1, r) else (1, s))
      in case scan_digits False 0 0 body of
           None \<Rightarrow> None
         | Some (v, n) \<Rightarrow> if over_digit_limit py n then None else Some (sgn * int v))"

definition int_of_str :: "interp \<Rightarrow> pystr \<Rightarrow> int option" where
  "int_of_str py s =
     (if \<forall>c \<in> set s. c < 128 \<and> \<not> isspace py c then ascii_int py s else other_int py s)"

text \<open>\<open>s.find(c)\<close> for a one-character needle, and the slice \<open>s[i:j]\<close> with Python's
  treatment of negative and out-of-range bounds.\<close>

fun find_from :: "int \<Rightarrow> pystr \<Rightarrow> pychar \<Rightarrow> int" where
  "find_from i [] c = - 1"
| "find_from i (x # xs) c = (if x = c then i else find_from (i + 1) xs c)"

definition find_str :: "pystr \<Rightarrow> pychar \<Rightarrow> int" where
  "find_str s c = find_from 0 s c"

definition slice_bound :: "'a list \<Rightarrow> int \<Rightarrow> nat" where
  "slice_bound xs i = (if i < 0 then nat (max (i + int (length xs)) 0) else nat i)"

definition slice :: "'a list \<Rightarrow> int \<Rightarrow> int \<Rightarrow> 'a list" where
  "slice xs i j = drop (slice_bound xs i) (take (slice_bound xs j) xs)"

section \<open>Configuration\<close>

record config =
  server :: pystr
  source_path :: pystr
  primary_backup_path :: pystr
  secondary_backup_paths :: "pystr list"
  send_mail :: pystr

section \<open>sanitize_filename\<close>

definition sanitize_filename :: "interp \<Rightarrow> pystr \<Rightarrow> pystr" where
  "sanitize_filename py filename =
     concat (map (\<lambda>c. if isalnum py c \<or> c \<in> {cp CHR '' '', cp CHR ''.'', cp CHR ''_'', cp CHR ''-''}
                       then [c] else ustr ''_'') filename)"

text \<open>The character set of the specification, \<open>[A-Za-z0-9 ._-]\<close>, written from its words.\<close>

definition spec_safe_char :: "pychar \<Rightarrow> bool" where
  "spec_safe_char c =
     ((cp CHR ''A'' \<le> c \<and> c \<le> cp CHR ''Z'') \<or> (cp CHR ''a'' \<le> c \<and> c \<le> cp CHR ''z'') \<or>
      (cp CHR ''0'' \<le> c \<and> c \<le> cp CHR ''9'') \<or>
      c = cp CHR '' '' \<or> c = cp CHR ''.'' \<or> c = cp CHR ''_'' \<or> c = cp CHR ''-'')"

section \<open>Selecting the new files of a remote listing\<close>

text \<open>
  The loop of \<open>perform_backup\<close> over the lines of the remote \<open>ls -lt --time-style=+%s\<close>
  output. \<open>local_files\<close> is the listing of the primary root. The loop stops with
  ValueError when \<open>int(parts[-2])\<close> does.
\<close>

fun new_files_loop ::
  "interp \<Rightarrow> pystr list \<Rightarrow> pystr list \<Rightarrow> (pystr \<times> int) list \<Rightarrow> exn + (pystr \<times> int) list" where
  "new_files_loop py local_files [] new_files = Inr new_files"
| "new_files_loop py local_files (line # rest) new_files =
     (let parts = split_ws py line in
      if length parts \<ge> 6 then
        (let filename = last parts;
             sanitized_filename = sanitize_filename py filename in
         if sanitized_filename \<notin> set local_files then
           (case int_of_str py (parts ! (length parts - 2)) of
              None \<Rightarrow> Inl ValueError
            | Some mtime \<Rightarrow> new_files_loop py local_files rest (new_files @ [(filename, mtime)]))
         else new_files_loop py local_files rest new_files)
      else new_files_loop py local_files rest new_files)"

definition select_new_files :: "interp \<Rightarrow> pystr list \<Rightarrow> pystr list \<Rightarrow> exn + (pystr \<times> int) list" where
  "select_new_files py local_files listing = new_files_loop py local_files listing []"

section \<open>The removable-media watcher\<close>

text \<open>
  The module-level variables the watcher shares. \<open>usb_prompted\<close> holds whatever Python value
  was last bound to the name: the module binds it to \<open>False\<close>.
\<close>

datatype prompted = PyBool bool | PySet "pystr set"

record usb_state =
  lecteur :: "pystr option"
  usb_prompted :: prompted
  usb_queue :: "(pystr \<times> config) list"

definition module_usb_state :: usb_state where
  "module_usb_state = \<lparr> lecteur = None, usb_prompted = PyBool False, usb_queue = [] \<rparr>"

text \<open>
  One pass through the body of the \<open>while True\<close> loop of \<open>check_usb\<close>, on the text
  \<open>data = str(output)\<close> of the drive enumeration. The result carries the local variable
  \<open>previous_usb\<close>, the shared state, and the exception that ended the thread, if any.
\<close>

definition check_usb_tick ::
  "config \<Rightarrow> pystr \<Rightarrow> pystr option \<times> usb_state \<Rightarrow> (pystr option \<times> usb_state) \<times> exn option" where
  "check_usb_tick cfg data st =
     (let previous_usb = fst st; g = snd st; x = find_str data (cp CHR ''2'') in
      if x \<noteq> - 1 then
        (let cvt = x; divise = cvt - 9;
             getD = slice data divise cvt;
             current_usb = slice getD 0 2 in
         if Some current_usb \<noteq> previous_usb then
           (let g1 = g\<lparr>lecteur := Some current_usb\<rparr> in
            case usb_prompted g1 of
              PyBool b \<Rightarrow> ((Some current_usb, g1), Some TypeError)
            | PySet s \<Rightarrow>
                if current_usb \<notin> s then
                  ((Some current_usb,
                    g1\<lparr>usb_queue := usb_queue g1 @ [(current_usb, cfg)],
                       usb_prompted := PySet (insert current_usb s)\<rparr>), None)
                else ((Some current_usb, g1), None))
         else ((previous_usb, g), None))
      else ((None, g), None))"

fun check_usb_loop ::
  "config \<Rightarrow> pystr list \<Rightarrow> pystr option \<times> usb_state \<Rightarrow> (pystr option \<times> usb_state) \<times> exn option" where
  "check_usb_loop cfg [] st = (st, None)"
| "check_usb_loop cfg (data # later) st =
     (case check_usb_tick cfg data st of
        (st', None) \<Rightarrow> check_usb_loop cfg later st'
      | (st', Some e) \<Rightarrow> (st', Some e))"

text \<open>\<open>check_usb\<close> on the enumeration outputs of its first ticks; the loop itself never
  returns, so the result is the state after these ticks, or at the exception.\<close>

definition check_usb :: "config \<Rightarrow> pystr list \<Rightarrow> usb_state \<Rightarrow> usb_state \<times> exn option" where
  "check_usb cfg outputs g =
     (case check_usb_loop cfg outputs (None, g) of ((previous_usb, g'), r) \<Rightarrow> (g', r))"

definition requests_for :: "pystr \<Rightarrow> usb_state \<Rightarrow> nat" where
  "requests_for v g = length (filter (\<lambda>r. fst r = v) (usb_queue g))"

section \<open>The backup store, the log and the environment of a run\<close>

text \<open>
  A directory is the list of its entries by name; \<open>os.listdir\<close> returns the names in the
  order of the list, and a Python set built from them is walked in that order (Python
  leaves the order open; every order is the order of some list). A file has a content
  and a modification time. The primary root is given by its entries; the staging
  directory is the folder \<open>temp\<close> among them. The secondary roots and the folders of
  removable volumes are kept by path in \<open>roots\<close>; a path without an entry there is a
  directory that does not exist. Names are compared exactly, as the set difference of the
  code compares them.

  The journal records, in order, what a run does to the outside: log lines, desktop
  notifications, e-mails (sent only when \<open>send_mail\<close> is \<open>yes\<close>), changes of the flag
  \<open>active_transfer\<close>, and operations on the filesystem. Logging and notifying do not
  raise: \<open>show_notification\<close> and \<open>send_email\<close> catch what their libraries raise.
\<close>

type_synonym bytes = "nat list"

datatype entry = File bytes int | Folder "(pystr \<times> entry) list"

type_synonym dir = "(pystr \<times> entry) list"

datatype place = Primary | Staging | Root pystr

datatype fsop =
    MakeDirs place | ListDir place | Create place pystr
  | Rename pystr | Utime pystr | Remove pystr | RmDir

datatype level = Info | Error

datatype title =
    Backup_Script | Backup_Script_Error | Backup_Script_Success | Backup_Script_Interrupted

datatype msg =
    Starting_backup | Ssh_established | Authentication_failed | Failed_to_connect | Retrying nat
  | Ensured_directory place | Starting_process | Retrieving_list | New_files_to_download nat
  | No_new_files | Already_exists pystr | Downloaded pystr | Moved pystr | Failed_to_copy pystr
  | Backup_complete | Interrupted_by_user | Unexpected_error | Sftp_closed | Ssh_closed
  | Cleanup_failed | Copied pystr pystr | Failed_to_copy_to pystr pystr
  | No_folder_selected | Exists_at pystr pystr

datatype event =
    Log level msg | Notify title msg | Email title msg | Flag bool | Fs fsop

record world =
  primary :: dir
  roots :: "(pystr \<times> dir) list"
  active_transfer :: bool
  journal :: "event list"

text \<open>
  What the outside does during one run: the outcome of each connection attempt, the lines
  the remote \<open>ls\<close> prints (the decoded output cut by \<open>splitlines\<close>), the content the server
  sends for a listed name (\<open>None\<close>: it has no such file, \<open>sftp.stat\<close> raises), the clock,
  and where an operation of the run fails with an exception (\<open>Fails\<close>) or is interrupted
  from the keyboard (\<open>Interrupted\<close>): before the transfers (\<open>setup_fault\<close>), in the steps of
  the i-th new file (\<open>file_fault\<close>), in the cleanup of the staging directory
  (\<open>cleanup_fault\<close>), or in the copy of a file into a root (\<open>copy_fault\<close>). A stream or a
  copy that breaks leaves the bytes written so far. \<open>stored_mtime\<close> is what the filesystem of
  the primary root does with a modification time it is asked to record: the time it
  records (a filesystem clamps a time outside its range, or rounds it to its resolution),
  or \<open>None\<close> when it refuses the time and \<open>os.utime\<close> raises OSError.
\<close>

datatype conn = Connected | AuthenticationException | ConnectError

datatype kind = Fails | Interrupted

datatype setup_stage = Open_sftp | Make_dirs nat | Exec_command | List_primary | Make_temp

datatype file_stage = At_stat | At_open | At_stream nat | At_rename | At_utime

datatype clean_stage = At_remove pystr | At_rmdir

datatype copy_stage = Before_write | During_write nat

record session =
  attempts :: "nat \<Rightarrow> conn"
  setup_fault :: "(setup_stage \<times> kind) option"
  remote_files :: "pystr list"
  fetch :: "pystr \<Rightarrow> bytes option"
  file_fault :: "nat \<Rightarrow> (file_stage \<times> kind) option"
  cleanup_fault :: "(clean_stage \<times> kind) option"
  copy_fault :: "pystr \<Rightarrow> pystr \<Rightarrow> (copy_stage \<times> kind) option"
  clock :: int
  stored_mtime :: "int \<Rightarrow> int option"

datatype outcome = Returns_True | Returns_False | Returns_None | Raises exn

definition exn_of :: "kind \<Rightarrow> exn" where
  "exn_of k = (case k of Fails \<Rightarrow> IOFailure | Interrupted \<Rightarrow> KeyboardInterrupt)"

definition fault_at :: "session \<Rightarrow> setup_stage \<Rightarrow> exn option" where
  "fault_at e stage =
     (case setup_fault e of
        None \<Rightarrow> None
      | Some (st, k) \<Rightarrow> if st = stage then Some (exn_of k) else None)"

definition emit :: "event \<Rightarrow> world \<Rightarrow> world" where
  "emit ev w = w\<lparr>journal := journal w @ [ev]\<rparr>"

definition logging :: "level \<Rightarrow> msg \<Rightarrow> world \<Rightarrow> world" where
  "logging lv m w = emit (Log lv m) w"

definition show_notification :: "title \<Rightarrow> msg \<Rightarrow> world \<Rightarrow> world" where
  "show_notification t m w = emit (Notify t m) w"

definition send_email :: "title \<Rightarrow> msg \<Rightarrow> config \<Rightarrow> world \<Rightarrow> world" where
  "send_email subject body cfg w =
     (if send_mail cfg = ustr ''yes'' then emit (Email subject body) w else w)"

definition listdir :: "dir \<Rightarrow> pystr list" where
  "listdir d = map fst d"

text \<open>\<open>os.path.exists(os.path.join(d, name))\<close> for a directory \<open>d\<close> that exists: the empty name
  and the dot names denote directories, which exist.\<close>

definition path_exists :: "dir \<Rightarrow> pystr \<Rightarrow> bool" where
  "path_exists d name = (name \<in> {[], ustr ''.'', ustr ''..''} \<or> name \<in> set (listdir d))"

definition temp :: pystr where
  "temp = ustr ''temp''"

definition staging :: "world \<Rightarrow> dir option" where
  "staging w = (case map_of (primary w) temp of Some (Folder d) \<Rightarrow> Some d | _ \<Rightarrow> None)"

definition set_staging :: "dir \<Rightarrow> world \<Rightarrow> world" where
  "set_staging d w = w\<lparr>primary := AList.update temp (Folder d) (primary w)\<rparr>"

definition root :: "world \<Rightarrow> pystr \<Rightarrow> dir option" where
  "root w p = map_of (roots w) p"

definition set_root :: "pystr \<Rightarrow> dir \<Rightarrow> world \<Rightarrow> world" where
  "set_root p d w = w\<lparr>roots := AList.update p d (roots w)\<rparr>"

text \<open>\<open>os.makedirs(path, exist_ok=True)\<close> on a secondary root or a folder of a volume.\<close>

definition makedirs_root :: "pystr \<Rightarrow> world \<Rightarrow> world" where
  "makedirs_root p w =
     emit (Fs (MakeDirs (Root p))) (case root w p of None \<Rightarrow> set_root p [] w | Some d \<Rightarrow> w)"

section \<open>connect_ssh and create_backup_directories\<close>

fun connect_loop :: "config \<Rightarrow> session \<Rightarrow> nat list \<Rightarrow> world \<Rightarrow> world \<times> bool" where
  "connect_loop cfg e [] w = (w, False)"
| "connect_loop cfg e (attempt # later) w =
     (case attempts e attempt of
        Connected \<Rightarrow> (logging Info Ssh_established w, True)
      | AuthenticationException \<Rightarrow>
          (show_notification Backup_Script_Error Authentication_failed
             (send_email Backup_Script_Error Authentication_failed cfg
                (logging Error Authentication_failed w)), False)
      | ConnectError \<Rightarrow>
          (let w1 = logging Error Failed_to_connect w in
           if attempt < 3 - 1 then connect_loop cfg e later (logging Info (Retrying (attempt + 1)) w1)
           else (show_notification Backup_Script_Error Failed_to_connect
                   (send_email Backup_Script_Error Failed_to_connect cfg w1), False)))"

text \<open>The second component tells whether a session was returned (\<open>None\<close> otherwise).\<close>

definition connect_ssh :: "config \<Rightarrow> session \<Rightarrow> world \<Rightarrow> world \<times> bool" where
  "connect_ssh cfg e w = connect_loop cfg e [0, 1, 2] w"

fun create_directories_loop :: "session \<Rightarrow> nat \<Rightarrow> place list \<Rightarrow> world \<Rightarrow> world \<times> exn option" where
  "create_directories_loop e i [] w = (w, None)"
| "create_directories_loop e i (p # ps) w =
     (case fault_at e (Make_dirs i) of
        Some x \<Rightarrow> (w, Some x)
      | None \<Rightarrow>
          create_directories_loop e (Suc i) ps
            (logging Info (Ensured_directory p)
               (case p of Root path \<Rightarrow> makedirs_root path w | _ \<Rightarrow> emit (Fs (MakeDirs p)) w)))"

definition create_backup_directories :: "config \<Rightarrow> session \<Rightarrow> world \<Rightarrow> world \<times> exn option" where
  "create_backup_directories cfg e w =
     create_directories_loop e 0 (Primary # map Root (secondary_backup_paths cfg)) w"

section \<open>synchronize_directories\<close>

text \<open>\<open>open(dest_file, 'wb')\<close> and the writes that follow, in a root that exists.\<close>

definition write_root :: "pystr \<Rightarrow> pystr \<Rightarrow> entry \<Rightarrow> world \<Rightarrow> world" where
  "write_root p name ent w =
     emit (Fs (Create (Root p) name))
       (case root w p of None \<Rightarrow> w | Some d \<Rightarrow> set_root p (AList.update name ent d) w)"

text \<open>The body of the \<open>try\<close>: \<open>getsize\<close>, the two \<open>open\<close> calls and the chunked copy.\<close>

definition copy_file :: "session \<Rightarrow> pystr \<Rightarrow> pystr \<Rightarrow> world \<Rightarrow> world \<times> exn option" where
  "copy_file e dest file w =
     (case map_of (primary w) file of
        None \<Rightarrow> (w, Some IOFailure)
      | Some (Folder d) \<Rightarrow> (w, Some IOFailure)
      | Some (File content mtime) \<Rightarrow>
          (case root w dest of
             None \<Rightarrow> (w, Some IOFailure)
           | Some d \<Rightarrow>
               (case copy_fault e dest file of
                  Some (Before_write, k) \<Rightarrow> (w, Some (exn_of k))
                | Some (During_write n, k) \<Rightarrow>
                    (write_root dest file (File (take n content) (clock e)) w, Some (exn_of k))
                | None \<Rightarrow> (write_root dest file (File content (clock e)) w, None))))"

text \<open>
  One pass of the inner loop of \<open>synchronize_directories\<close>: the copy of \<open>file\<close> into the
  secondary root and the handler of its exception. The handler logs the failure and then
  calls \<open>send_email\<close> with two arguments where the function takes three, which raises
  TypeError inside the handler, before \<open>show_notification\<close>.
\<close>

definition sync_file :: "session \<Rightarrow> pystr \<Rightarrow> pystr \<Rightarrow> world \<Rightarrow> world \<times> exn option" where
  "sync_file e secondary_path file w =
     (case copy_file e secondary_path file w of
        (w1, None) \<Rightarrow> (logging Info (Copied file secondary_path) w1, None)
      | (w1, Some KeyboardInterrupt) \<Rightarrow> (w1, Some KeyboardInterrupt)
      | (w1, Some x) \<Rightarrow> (logging Error (Failed_to_copy_to file secondary_path) w1, Some TypeError))"

fun sync_files :: "session \<Rightarrow> pystr \<Rightarrow> pystr list \<Rightarrow> world \<Rightarrow> world \<times> exn option" where
  "sync_files e secondary_path [] w = (w, None)"
| "sync_files e secondary_path (file # later) w =
     (case sync_file e secondary_path file w of
        (w1, None) \<Rightarrow> sync_files e secondary_path later w1
      | (w1, Some x) \<Rightarrow> (w1, Some x))"

text \<open>\<open>os.listdir\<close> of a root, and \<open>files_to_copy = primary_files - secondary_files\<close>.\<close>

definition listdir_root :: "world \<Rightarrow> pystr \<Rightarrow> pystr list" where
  "listdir_root w p = (case root w p of None \<Rightarrow> [] | Some d \<Rightarrow> listdir d)"

definition set_minus :: "pystr list \<Rightarrow> pystr list \<Rightarrow> pystr list" where
  "set_minus xs ys = filter (\<lambda>f. f \<notin> set ys) xs"

fun sync_roots :: "session \<Rightarrow> pystr list \<Rightarrow> pystr list \<Rightarrow> world \<Rightarrow> world \<times> exn option" where
  "sync_roots e primary_files [] w = (w, None)"
| "sync_roots e primary_files (secondary_path # later) w =
     (let w1 = emit (Fs (ListDir (Root secondary_path))) (makedirs_root secondary_path w);
          secondary_files = listdir_root w1 secondary_path;
          files_to_copy = set_minus primary_files secondary_files
      in case sync_files e secondary_path files_to_copy w1 of
           (w2, None) \<Rightarrow> sync_roots e primary_files later w2
         | (w2, Some x) \<Rightarrow> (w2, Some x))"

definition synchronize_directories :: "session \<Rightarrow> pystr list \<Rightarrow> world \<Rightarrow> world \<times> exn option" where
  "synchronize_directories e secondary_paths w =
     (let w1 = emit (Fs (ListDir Primary)) w;
          primary_files = remdups (listdir (primary w1))
      in sync_roots e primary_files secondary_paths w1)"

section \<open>cleanup_temp_directory\<close>

definition cleanup_fault_at :: "session \<Rightarrow> clean_stage \<Rightarrow> exn option" where
  "cleanup_fault_at e stage =
     (case cleanup_fault e of
        None \<Rightarrow> None
      | Some (st, k) \<Rightarrow> if st = stage then Some (exn_of k) else None)"

definition remove_staged :: "pystr \<Rightarrow> world \<Rightarrow> world" where
  "remove_staged name w =
     (case staging w of
        None \<Rightarrow> w
      | Some d \<Rightarrow> emit (Fs (Remove name)) (set_staging (AList.delete name d) w))"

text \<open>The loop over \<open>os.listdir(temp_dir)\<close>; \<open>os.remove\<close> raises on a folder.\<close>

fun remove_all :: "session \<Rightarrow> (pystr \<times> entry) list \<Rightarrow> world \<Rightarrow> world \<times> exn option" where
  "remove_all e [] w = (w, None)"
| "remove_all e ((filename, ent) # later) w =
     (case cleanup_fault_at e (At_remove filename) of
        Some x \<Rightarrow> (w, Some x)
      | None \<Rightarrow>
          (case ent of
             Folder d \<Rightarrow> (w, Some IOFailure)
           | File content mtime \<Rightarrow> remove_all e later (remove_staged filename w)))"

definition cleanup_temp_directory :: "session \<Rightarrow> world \<Rightarrow> world \<times> exn option" where
  "cleanup_temp_directory e w =
     (case staging w of
        None \<Rightarrow> (logging Error Cleanup_failed w, None)
      | Some d \<Rightarrow>
          (case remove_all e d (emit (Fs (ListDir Staging)) w) of
             (w1, Some KeyboardInterrupt) \<Rightarrow> (w1, Some KeyboardInterrupt)
           | (w1, Some x) \<Rightarrow> (logging Error Cleanup_failed w1, None)
           | (w1, None) \<Rightarrow>
               (case cleanup_fault_at e At_rmdir of
                  Some KeyboardInterrupt \<Rightarrow> (w1, Some KeyboardInterrupt)
                | Some x \<Rightarrow> (logging Error Cleanup_failed w1, None)
                | None \<Rightarrow>
                    (emit (Fs RmDir) (w1\<lparr>primary := AList.delete temp (primary w1)\<rparr>), None))))"

section \<open>perform_backup\<close>

definition file_fault_at :: "session \<Rightarrow> nat \<Rightarrow> file_stage \<Rightarrow> exn option" where
  "file_fault_at e i stage =
     (case file_fault e i of
        None \<Rightarrow> None
      | Some (st, k) \<Rightarrow> if st = stage then Some (exn_of k) else None)"

definition stream_fault :: "session \<Rightarrow> nat \<Rightarrow> (nat \<times> exn) option" where
  "stream_fault e i =
     (case file_fault e i of Some (At_stream n, k) \<Rightarrow> Some (n, exn_of k) | _ \<Rightarrow> None)"

definition put_staged :: "pystr \<Rightarrow> entry \<Rightarrow> world \<Rightarrow> world" where
  "put_staged name ent w =
     (case staging w of
        None \<Rightarrow> w
      | Some d \<Rightarrow> emit (Fs (Create Staging name)) (set_staging (AList.update name ent d) w))"

text \<open>\<open>os.rename(temp_file_path, final_file_path)\<close>.\<close>

definition promote :: "pystr \<Rightarrow> world \<Rightarrow> world" where
  "promote name w =
     (case staging w of
        None \<Rightarrow> w
      | Some d \<Rightarrow>
          (case map_of d name of
             None \<Rightarrow> w
           | Some ent \<Rightarrow>
               emit (Fs (Rename name))
                 (w\<lparr>primary := AList.update name ent
                                  (AList.update temp (Folder (AList.delete name d)) (primary w))\<rparr>)))"

text \<open>
  \<open>os.utime(final_file_path, (mtime, mtime))\<close>: the conversion of a Python int that does not
  fit the 64-bit \<open>time_t\<close> raises OverflowError before the filesystem is asked; a time that
  fits is handed to the filesystem, which raises OSError when it refuses the time or has
  no such path. The store keeps no time for a folder.
\<close>

definition set_mtime :: "session \<Rightarrow> pystr \<Rightarrow> int \<Rightarrow> world \<Rightarrow> world \<times> exn option" where
  "set_mtime e name mtime w =
     (if mtime < - (2 ^ 63) \<or> 2 ^ 63 \<le> mtime then (w, Some OverflowError)
      else
        (case stored_mtime e mtime of
           None \<Rightarrow> (w, Some IOFailure)
         | Some t \<Rightarrow>
             (case map_of (primary w) name of
                None \<Rightarrow> (w, Some IOFailure)
              | Some (Folder d) \<Rightarrow> (emit (Fs (Utime name)) w, None)
              | Some (File content m) \<Rightarrow>
                  (emit (Fs (Utime name))
                     (w\<lparr>primary := AList.update name (File content t) (primary w)\<rparr>), None))))"

text \<open>The body of the per-file \<open>try\<close> after the existence check: stat, open, stream, rename,
  utime. The result names the exception that left it, if any.\<close>

definition download ::
  "session \<Rightarrow> nat \<Rightarrow> pystr \<Rightarrow> pystr \<Rightarrow> int \<Rightarrow> world \<Rightarrow> world \<times> exn option" where
  "download e i file sanitized_file mtime w =
     (case file_fault_at e i At_stat of
        Some x \<Rightarrow> (w, Some x)
      | None \<Rightarrow>
     (case fetch e file of
        None \<Rightarrow> (w, Some IOFailure)
      | Some content \<Rightarrow>
     (case file_fault_at e i At_open of
        Some x \<Rightarrow> (w, Some x)
      | None \<Rightarrow>
     (case staging w of
        None \<Rightarrow> (w, Some IOFailure)
      | Some d \<Rightarrow>
     (case stream_fault e i of
        Some (n, x) \<Rightarrow> (put_staged sanitized_file (File (take n content) (clock e)) w, Some x)
      | None \<Rightarrow>
          (let w1 = logging Info (Downloaded sanitized_file)
                      (put_staged sanitized_file (File content (clock e)) w) in
           case file_fault_at e i At_rename of
             Some x \<Rightarrow> (w1, Some x)
           | None \<Rightarrow>
               (let w2 = logging Info (Moved sanitized_file) (promote sanitized_file w1) in
                case file_fault_at e i At_utime of
                  Some x \<Rightarrow> (w2, Some x)
                | None \<Rightarrow> set_mtime e sanitized_file mtime w2)))))))"

text \<open>One pass of the loop over \<open>new_files\<close>, with the handler of the per-file \<open>try\<close>.\<close>

definition download_file ::
  "interp \<Rightarrow> config \<Rightarrow> session \<Rightarrow> nat \<Rightarrow> pystr \<Rightarrow> int \<Rightarrow> world \<Rightarrow> world \<times> exn option" where
  "download_file py cfg e i file mtime w =
     (let sanitized_file = sanitize_filename py file in
      if (case staging w of None \<Rightarrow> False | Some d \<Rightarrow> path_exists d sanitized_file)
         \<or> path_exists (primary w) sanitized_file
      then (logging Info (Already_exists sanitized_file) w, None)
      else
        (case download e i file sanitized_file mtime w of
           (w1, None) \<Rightarrow> (w1, None)
         | (w1, Some KeyboardInterrupt) \<Rightarrow> (w1, Some KeyboardInterrupt)
         | (w1, Some x) \<Rightarrow>
             (show_notification Backup_Script_Error (Failed_to_copy sanitized_file)
                (send_email Backup_Script_Error (Failed_to_copy sanitized_file) cfg
                   (logging Error (Failed_to_copy sanitized_file) w1)), None)))"

fun download_loop ::
  "interp \<Rightarrow> config \<Rightarrow> session \<Rightarrow> nat \<Rightarrow> (pystr \<times> int) list \<Rightarrow> world \<Rightarrow> world \<times> exn option" where
  "download_loop py cfg e i [] w = (w, None)"
| "download_loop py cfg e i ((file, mtime) # later) w =
     (case download_file py cfg e i file mtime w of
        (w1, None) \<Rightarrow> download_loop py cfg e (Suc i) later w1
      | (w1, Some x) \<Rightarrow> (w1, Some x))"

text \<open>Lines 153 to 174: the channel, the directories, the listing and the new files.\<close>

definition prepare ::
  "interp \<Rightarrow> config \<Rightarrow> session \<Rightarrow> world \<Rightarrow> world \<times> (exn + (pystr \<times> int) list)" where
  "prepare py cfg e w =
     (case fault_at e Open_sftp of
        Some x \<Rightarrow> (w, Inl x)
      | None \<Rightarrow>
     (case create_backup_directories cfg e w of
        (w1, Some x) \<Rightarrow> (w1, Inl x)
      | (w1, None) \<Rightarrow>
          (let w2 = logging Info Retrieving_list
                      (show_notification Backup_Script Starting_process w1) in
           case fault_at e Exec_command of
             Some x \<Rightarrow> (w2, Inl x)
           | None \<Rightarrow>
          (case fault_at e List_primary of
             Some x \<Rightarrow> (w2, Inl x)
           | None \<Rightarrow>
               (let w3 = emit (Fs (ListDir Primary)) w2;
                    local_files = listdir (primary w3) in
                case select_new_files py local_files (remote_files e) of
                  Inl x \<Rightarrow> (w3, Inl x)
                | Inr new_files \<Rightarrow>
                    (logging Info (New_files_to_download (length new_files)) w3,
                     Inr new_files))))))"

text \<open>\<open>os.makedirs(temp_dir, exist_ok=True)\<close>: it raises when \<open>temp\<close> is a file.\<close>

definition make_temp :: "session \<Rightarrow> world \<Rightarrow> world \<times> exn option" where
  "make_temp e w =
     (case fault_at e Make_temp of
        Some x \<Rightarrow> (w, Some x)
      | None \<Rightarrow>
          (case map_of (primary w) temp of
             None \<Rightarrow> (emit (Fs (MakeDirs Staging)) (set_staging [] w), None)
           | Some (Folder d) \<Rightarrow> (emit (Fs (MakeDirs Staging)) w, None)
           | Some (File content mtime) \<Rightarrow> (w, Some IOFailure)))"

definition set_flag :: "bool \<Rightarrow> world \<Rightarrow> world" where
  "set_flag b w = emit (Flag b) (w\<lparr>active_transfer := b\<rparr>)"

text \<open>The two \<open>except\<close> clauses of the inner \<open>try\<close>.\<close>

definition handle_transfer_exception :: "config \<Rightarrow> exn \<Rightarrow> world \<Rightarrow> world \<times> outcome" where
  "handle_transfer_exception cfg x w =
     (if x = KeyboardInterrupt then
        (show_notification Backup_Script_Interrupted Interrupted_by_user
           (logging Info Interrupted_by_user w), Returns_False)
      else
        (show_notification Backup_Script_Error Unexpected_error
           (send_email Backup_Script_Error Unexpected_error cfg
              (logging Error Unexpected_error w)), Returns_False))"

text \<open>The inner \<open>try\<close> with its handlers, from taking the flag to \<open>return True\<close>.\<close>

definition transfer ::
  "interp \<Rightarrow> config \<Rightarrow> session \<Rightarrow> (pystr \<times> int) list \<Rightarrow> world \<Rightarrow> world \<times> outcome" where
  "transfer py cfg e new_files w =
     (case download_loop py cfg e 0 new_files (set_flag True w) of
        (w1, Some x) \<Rightarrow> handle_transfer_exception cfg x w1
      | (w1, None) \<Rightarrow>
     (case cleanup_temp_directory e w1 of
        (w2, Some x) \<Rightarrow> handle_transfer_exception cfg x w2
      | (w2, None) \<Rightarrow>
     (case synchronize_directories e (secondary_backup_paths cfg) w2 of
        (w3, Some x) \<Rightarrow> handle_transfer_exception cfg x w3
      | (w3, None) \<Rightarrow>
          (show_notification Backup_Script_Success Backup_complete
             (send_email Backup_Script_Success Backup_complete cfg
                (logging Info Backup_complete w3)), Returns_True))))"

text \<open>The outer \<open>try\<close>: everything after the connection, without the final \<open>ssh.close()\<close>.\<close>

definition pull :: "interp \<Rightarrow> config \<Rightarrow> session \<Rightarrow> world \<Rightarrow> world \<times> outcome" where
  "pull py cfg e w =
     (case prepare py cfg e w of
        (w1, Inl x) \<Rightarrow> (w1, Raises x)
      | (w1, Inr new_files) \<Rightarrow>
          if new_files = [] then
            (show_notification Backup_Script No_new_files (logging Info No_new_files w1),
             Returns_None)
          else
            (case make_temp e w1 of
               (w2, Some x) \<Rightarrow> (w2, Raises x)
             | (w2, None) \<Rightarrow>
                 (case transfer py cfg e new_files w2 of
                    (w3, out) \<Rightarrow> (logging Info Sftp_closed (set_flag False w3), out))))"

definition perform_backup :: "interp \<Rightarrow> config \<Rightarrow> session \<Rightarrow> world \<Rightarrow> world \<times> outcome" where
  "perform_backup py cfg e w =
     (case connect_ssh cfg e (logging Info Starting_backup w) of
        (w1, False) \<Rightarrow> (w1, Returns_False)
      | (w1, True) \<Rightarrow>
          (case pull py cfg e w1 of (w2, out) \<Rightarrow> (logging Info Ssh_closed w2, out)))"

section \<open>copy_to_usb\<close>

text \<open>\<open>os.path.join\<close> on Windows for a relative second component without a drive.\<close>

definition path_join :: "pystr \<Rightarrow> pystr \<Rightarrow> pystr" where
  "path_join a b =
     (if a = [] \<or> last a \<in> {cp CHR 0x5C, cp CHR ''/'', cp CHR '':''} then a @ b
      else a @ [cp CHR 0x5C] @ b)"

text \<open>\<open>select_backup_folder\<close> on the two lines the user types at the prompts.\<close>

definition select_backup_folder :: "pystr \<Rightarrow> pystr \<times> pystr \<Rightarrow> world \<Rightarrow> world \<times> pystr" where
  "select_backup_folder usb_path typed w =
     (let folder_selected = fst typed; folder_name = snd typed in
      if folder_selected = [] then
        (if folder_name \<noteq> [] then
           (makedirs_root (path_join usb_path folder_name) w, path_join usb_path folder_name)
         else (w, folder_selected))
      else (w, folder_selected))"

text \<open>The polling loop: with nobody else to reset the flag it returns only when the flag
  is down; \<open>None\<close> is the loop that never ends.\<close>

partial_function (option) wait_for_no_active_transfer :: "world \<Rightarrow> world option" where
  "wait_for_no_active_transfer w =
     (if \<not> active_transfer w then Some w else wait_for_no_active_transfer w)"

fun copy_to_usb_loop :: "session \<Rightarrow> pystr \<Rightarrow> pystr list \<Rightarrow> world \<Rightarrow> world \<times> exn option" where
  "copy_to_usb_loop e target_folder [] w = (w, None)"
| "copy_to_usb_loop e target_folder (file_name # later) w =
     (if (case root w target_folder of None \<Rightarrow> False | Some d \<Rightarrow> path_exists d file_name)
      then copy_to_usb_loop e target_folder later
             (logging Info (Exists_at file_name target_folder) w)
      else
        (case copy_file e target_folder file_name w of
           (w1, None) \<Rightarrow>
             copy_to_usb_loop e target_folder later
               (logging Info (Copied file_name target_folder) w1)
         | (w1, Some KeyboardInterrupt) \<Rightarrow> (w1, Some KeyboardInterrupt)
         | (w1, Some x) \<Rightarrow>
             copy_to_usb_loop e target_folder later
               (logging Error (Failed_to_copy_to file_name target_folder) w1)))"

text \<open>\<open>copy_to_usb\<close>; the result is \<open>None\<close> when the wait never ends, otherwise the world at the
  exit and the exception that left the function, if any.\<close>

definition copy_to_usb ::
  "session \<Rightarrow> pystr \<Rightarrow> pystr \<times> pystr \<Rightarrow> world \<Rightarrow> (world \<times> exn option) option" where
  "copy_to_usb e usb_path typed w =
     (case select_backup_folder usb_path typed w of
        (w1, target_folder) \<Rightarrow>
          if target_folder = [] then Some (logging Info No_folder_selected w1, None)
          else
            (case wait_for_no_active_transfer w1 of
               None \<Rightarrow> None
             | Some w2 \<Rightarrow>
                 (let w3 = emit (Fs (ListDir Primary)) (set_flag True w2) in
                  case copy_to_usb_loop e target_folder (listdir (primary w3)) w3 of
                    (w4, r) \<Rightarrow> Some (set_flag False w4, r))))"

section \<open>Reading the journal\<close>

text \<open>The events of a run: what it appended to the journal.\<close>

definition emitted :: "world \<Rightarrow> world \<Rightarrow> event list" where
  "emitted w w' = drop (length (journal w)) (journal w')"

text \<open>The operations that move, write or remove a file, as opposed to creating or listing
  a directory.\<close>

fun is_transfer :: "event \<Rightarrow> bool" where
  "is_transfer (Fs (Create p n)) = True"
| "is_transfer (Fs (Rename n)) = True"
| "is_transfer (Fs (Utime n)) = True"
| "is_transfer (Fs (Remove n)) = True"
| "is_transfer (Fs RmDir) = True"
| "is_transfer ev = False"

fun touches_filesystem :: "event \<Rightarrow> bool" where
  "touches_filesystem (Fs op) = True"
| "touches_filesystem ev = False"

text \<open>\<open>guarded P b evs\<close>: every event of \<open>evs\<close> that satisfies \<open>P\<close> happens while the flag is
  up, the flag being \<open>b\<close> before the first event.\<close>

fun guarded :: "(event \<Rightarrow> bool) \<Rightarrow> bool \<Rightarrow> event list \<Rightarrow> bool" where
  "guarded P b [] = True"
| "guarded P b (Flag b' # evs) = guarded P b' evs"
| "guarded P b (ev # evs) = ((P ev \<longrightarrow> b) \<and> guarded P b evs)"

section \<open>Worked inputs of the watcher\<close>

text \<open>
  The text \<open>str(output)\<close> of the drive enumeration with a fixed disk \<open>C:\<close> and a removable
  volume \<open>E:\<close> (drive type 2), and with the fixed disk alone.
\<close>

definition eol :: pystr where
  "eol = ustr [CHR 0x5C, CHR ''r'', CHR 0x5C, CHR ''r'', CHR 0x5C, CHR ''n'']"

definition drives_C_E :: pystr where
  "drives_C_E = ustr ''b'' @ [39] @ ustr ''Caption  DriveType  '' @ eol
                @ ustr ''C:       3          '' @ eol @ ustr ''E:       2          '' @ eol @ [39]"

definition drives_C :: pystr where
  "drives_C = ustr ''b'' @ [39] @ ustr ''Caption  DriveType  '' @ eol
              @ ustr ''C:       3          '' @ eol @ [39]"

definition office :: config where
  "office = \<lparr> server = ustr ''10.0.0.5'', source_path = ustr ''/srv/backups'',
               primary_backup_path = ustr ''D:/backup'',
               secondary_backup_paths = [ustr ''E:/mirror'', ustr ''F:/mirror''],
               send_mail = ustr ''no'' \<rparr>"

text \<open>A bound used in the proof of the watcher's deduplication: whether the watcher can
  still enqueue the volume \<open>v\<close>.\<close>

definition may_prompt :: "pystr \<Rightarrow> usb_state \<Rightarrow> nat" where
  "may_prompt v g =
     (case usb_prompted g of PyBool b \<Rightarrow> 0 | PySet s \<Rightarrow> if v \<in> s then 0 else 1)"

section \<open>Shapes of a journal\<close>

text \<open>
  Notions used to state and prove what a run writes to the journal. An event is routine
  when it is neither a change of the flag nor one of the closing notifications of a run;
  it is calm when, in addition, it does not move, write or remove a file.
\<close>

fun routine :: "event \<Rightarrow> bool" where
  "routine (Flag b) = False"
| "routine (Notify t m) = (t = Backup_Script_Error \<or> m = Starting_process)"
| "routine ev = True"

definition calm :: "event \<Rightarrow> bool" where
  "calm ev = (routine ev \<and> \<not> is_transfer ev)"

text \<open>\<open>grows P w w'\<close>: \<open>w'\<close> has the journal of \<open>w\<close> followed by events that satisfy \<open>P\<close>, and
  the same flag.\<close>

definition grows :: "(event \<Rightarrow> bool) \<Rightarrow> world \<Rightarrow> world \<Rightarrow> bool" where
  "grows P w w' =
     ((\<exists>es. journal w' = journal w @ es \<and> list_all P es)
      \<and> active_transfer w' = active_transfer w)"

text \<open>The three ways the transfer phase of \<open>perform_backup\<close> ends, with what each writes
  last and returns.\<close>

datatype ending = Completed | Stopped_by_user | Stopped_by_error

fun ending_events :: "config \<Rightarrow> ending \<Rightarrow> event list" where
  "ending_events cfg Completed =
     Log Info Backup_complete
     # (if send_mail cfg = ustr ''yes'' then [Email Backup_Script_Success Backup_complete] else [])
     @ [Notify Backup_Script_Success Backup_complete]"
| "ending_events cfg Stopped_by_user =
     [Log Info Interrupted_by_user, Notify Backup_Script_Interrupted Interrupted_by_user]"
| "ending_events cfg Stopped_by_error =
     Log Error Unexpected_error
     # (if send_mail cfg = ustr ''yes'' then [Email Backup_Script_Error Unexpected_error] else [])
     @ [Notify Backup_Script_Error Unexpected_error]"

fun ending_outcome :: "ending \<Rightarrow> outcome" where
  "ending_outcome Completed = Returns_True"
| "ending_outcome Stopped_by_user = Returns_False"
| "ending_outcome Stopped_by_error = Returns_False"

text \<open>The events of a whole \<open>perform_backup\<close>: it ends before the transfer phase, or finds
  nothing new, or runs the transfer phase between raising and lowering the flag.\<close>

definition run_shape :: "config \<Rightarrow> event list \<Rightarrow> outcome \<Rightarrow> bool" where
  "run_shape cfg es out =
     ((list_all calm es \<and> (out = Returns_False \<or> (\<exists>x. out = Raises x)))
      \<or> (\<exists>pre. es = pre @ [Log Info No_new_files, Notify Backup_Script No_new_files,
                             Log Info Ssh_closed]
                \<and> list_all calm pre \<and> out = Returns_None)
      \<or> (\<exists>pre mid en.
            es = pre @ Flag True # mid @ ending_events cfg en
                   @ [Flag False, Log Info Sftp_closed, Log Info Ssh_closed]
            \<and> list_all calm pre \<and> list_all routine mid \<and> out = ending_outcome en))"

text \<open>\<open>only_adds w w'\<close>: the primary root is unchanged and every root has kept its names.\<close>

definition only_adds :: "world \<Rightarrow> world \<Rightarrow> bool" where
  "only_adds w w' =
     (primary w' = primary w
      \<and> (\<forall>q d. root w q = Some d \<longrightarrow>
                 (\<exists>d'. root w' q = Some d' \<and> set (listdir d) \<subseteq> set (listdir d'))))"

section \<open>Interruptions of the transfer phase\<close>

text \<open>
  Lines 146 to 187 of \<open>perform_backup\<close>: the new files and the store with which a run comes
  to the loop over the new files, the flag raised; \<open>None\<close> when the run ends before that.
\<close>

definition transfer_start ::
  "interp \<Rightarrow> config \<Rightarrow> session \<Rightarrow> world \<Rightarrow> ((pystr \<times> int) list \<times> world) option" where
  "transfer_start py cfg e w =
     (case connect_ssh cfg e (logging Info Starting_backup w) of
        (w1, False) \<Rightarrow> None
      | (w1, True) \<Rightarrow>
          (case prepare py cfg e w1 of
             (w2, Inl x) \<Rightarrow> None
           | (w2, Inr new_files) \<Rightarrow>
               if new_files = [] then None
               else
                 (case make_temp e w2 of
                    (w3, Some x) \<Rightarrow> None
                  | (w3, None) \<Rightarrow> Some (new_files, set_flag True w3))))"

text \<open>
  What \<open>perform_backup\<close> does once KeyboardInterrupt has left the body of its inner \<open>try\<close>:
  the handler of lines 233 to 236 logs and notifies, the two \<open>finally\<close> blocks lower the flag
  and close the channels.
\<close>

definition interrupted_exit :: "world \<Rightarrow> world" where
  "interrupted_exit w =
     logging Info Ssh_closed
       (logging Info Sftp_closed
          (set_flag False
             (show_notification Backup_Script_Interrupted Interrupted_by_user
                (logging Info Interrupted_by_user w))))"

text \<open>
  The steps of the i-th new file are interrupted from the keyboard in the store \<open>w\<close>: the
  file is not skipped as already present (lines 195 to 198), and the interruption falls
  on a step that is reached. The steps after \<open>sftp.stat\<close> are reached when the server holds
  the file, those after \<open>open\<close> when the staging directory exists.
\<close>

definition file_interrupted :: "interp \<Rightarrow> session \<Rightarrow> nat \<Rightarrow> pystr \<Rightarrow> world \<Rightarrow> bool" where
  "file_interrupted py e i fl w =
     (\<not> ((case staging w of None \<Rightarrow> False | Some d \<Rightarrow> path_exists d (sanitize_filename py fl))
          \<or> path_exists (primary w) (sanitize_filename py fl))
      \<and> (case file_fault e i of
            Some (stage, Interrupted) \<Rightarrow>
              stage = At_stat
              \<or> (fetch e fl \<noteq> None \<and> (stage = At_open \<or> staging w \<noteq> None))
          | _ \<Rightarrow> False))"

text \<open>
  The cleanup of a staging directory with the entries \<open>d\<close> comes to a stage: to the removal
  of a name when only files precede it in the listing (\<open>os.remove\<close> raises on a folder,
  which ends the cleanup), to \<open>os.rmdir\<close> when all entries are files. The cleanup of the
  store \<open>w\<close> is interrupted when the interruption falls on a stage it comes to.
\<close>

fun comes_to :: "clean_stage \<Rightarrow> dir \<Rightarrow> bool" where
  "comes_to stage [] = (stage = At_rmdir)"
| "comes_to stage ((filename, ent) # later) =
     (stage = At_remove filename
      \<or> (case ent of File content mtime \<Rightarrow> comes_to stage later | Folder d \<Rightarrow> False))"

definition cleanup_interrupted :: "session \<Rightarrow> world \<Rightarrow> bool" where
  "cleanup_interrupted e w =
     (case staging w of
        None \<Rightarrow> False
      | Some d \<Rightarrow>
          (case cleanup_fault e of
             Some (stage, Interrupted) \<Rightarrow> comes_to stage d
           | _ \<Rightarrow> False))"

text \<open>
  The mirror synchronisation of the store \<open>w\<close> is interrupted from the keyboard: the
  primary root holds files only and no copy fails with an exception (either would end
  the synchronisation by the TypeError of its handler), and a copy that is due, of a file
  that a secondary root lacks, is interrupted.
\<close>

definition mirror_interrupted :: "session \<Rightarrow> pystr list \<Rightarrow> world \<Rightarrow> bool" where
  "mirror_interrupted e secondary_paths w =
     (list_all (\<lambda>f. case snd f of File content mtime \<Rightarrow> True | Folder d \<Rightarrow> False) (primary w)
      \<and> list_all (\<lambda>p. list_all (\<lambda>f. case copy_fault e p f of
                                       Some (stage, Fails) \<Rightarrow> False | _ \<Rightarrow> True)
                         (listdir (primary w)))
          secondary_paths
      \<and> list_ex (\<lambda>p. list_ex (\<lambda>f. f \<notin> set (listdir_root w p) \<and> copy_fault e p f \<noteq> None)
                        (listdir (primary w)))
          secondary_paths)"

section \<open>Worked runs\<close>

text \<open>
  An empty store. A filesystem that records the seconds from -2147483648 to 15032385535
  and clamps a time outside this range, as ext4 does. A run in which nothing fails, on
  that filesystem.
\<close>

definition empty_store :: world where
  "empty_store = \<lparr> primary = [], roots = [], active_transfer = False, journal = [] \<rparr>"

definition clamped_time :: "int \<Rightarrow> int option" where
  "clamped_time t = Some (max (- 2147483648) (min t 15032385535))"

definition calm_session :: "pystr list \<Rightarrow> (pystr \<times> bytes) list \<Rightarrow> session" where
  "calm_session ls srv =
     \<lparr> attempts = (\<lambda>n. Connected), setup_fault = None, remote_files = ls,
       fetch = map_of srv, file_fault = (\<lambda>i. None), cleanup_fault = None,
       copy_fault = (\<lambda>p f. None), clock = 1700003600, stored_mtime = clamped_time \<rparr>"

text \<open>
  A session in which no operation fails or is interrupted; and a modification time that
  \<open>os.utime\<close> accepts and the filesystem records as it is.
\<close>

definition nothing_fails :: "session \<Rightarrow> bool" where
  "nothing_fails e =
     (setup_fault e = None \<and> (\<forall>i. file_fault e i = None) \<and> cleanup_fault e = None
      \<and> (\<forall>p f. copy_fault e p f = None))"

definition records :: "session \<Rightarrow> int \<Rightarrow> bool" where
  "records e t = (- (2 ^ 63) \<le> t \<and> t < 2 ^ 63 \<and> stored_mtime e t = Some t)"

text \<open>
  The remote listing of scenario A as the entries \<open>(filename, mtime)\<close> that the loop of
  lines 166 to 172 is meant to collect from it.
\<close>

definition entries_A :: "int \<Rightarrow> int \<Rightarrow> (pystr \<times> int) list" where
  "entries_A t1 t2 = [(ustr ''a.txt'', t1), (ustr ''b log.txt'', t2)]"

text \<open>
  The line that \<open>ls -lt --time-style=+%s\<close> prints for a regular file: mode, link count,
  owner, group, size, modification time in seconds as a decimal numeral, and name.
\<close>

fun decimal :: "nat \<Rightarrow> pystr" where
  "decimal n = (if n < 10 then [48 + n] else decimal (n div 10) @ [48 + n mod 10])"

declare decimal.simps [simp del]

definition ls_line :: "pystr \<Rightarrow> nat \<Rightarrow> pystr \<Rightarrow> pystr" where
  "ls_line size_field mtime name =
     ustr ''-rw-r--r-- 1 backup backup '' @ size_field @ ustr '' '' @ decimal mtime
       @ ustr '' '' @ name"

text \<open>
  The listing of a remote directory with \<open>a.txt\<close> (modified at \<open>t1\<close>) and \<open>b#log.txt\<close>
  (modified at \<open>t2\<close>), newest first; a run against it in which nothing fails; the same
  run at two fixed times; and the listing and the run of the same directory with the
  second file named \<open>b log.txt\<close>.
\<close>

definition listing_A :: "nat \<Rightarrow> nat \<Rightarrow> pystr list" where
  "listing_A t1 t2 =
     ustr ''total 8'' #
     (if t2 \<le> t1
      then [ls_line (ustr ''100'') t1 (ustr ''a.txt''), ls_line (ustr ''200'') t2 (ustr ''b#log.txt'')]
      else [ls_line (ustr ''200'') t2 (ustr ''b#log.txt''), ls_line (ustr ''100'') t1 (ustr ''a.txt'')])"

definition session_A :: "nat \<Rightarrow> nat \<Rightarrow> bytes \<Rightarrow> bytes \<Rightarrow> session" where
  "session_A t1 t2 c1 c2 =
     calm_session (listing_A t1 t2) [(ustr ''a.txt'', c1), (ustr ''b#log.txt'', c2)]"

definition session_A0 :: session where
  "session_A0 = session_A 1700000060 1700000000 [1, 2, 3] [4, 5]"

definition listing_A_spaced :: "pystr list" where
  "listing_A_spaced = [ustr ''total 8'',
                       ustr ''-rw-r--r-- 1 backup backup 100 1700000060 a.txt'',
                       ustr ''-rw-r--r-- 1 backup backup 200 1700000000 b log.txt'']"

definition session_A_spaced :: session where
  "session_A_spaced =
     calm_session listing_A_spaced [(ustr ''a.txt'', [1, 2, 3]), (ustr ''b log.txt'', [4, 5])]"

text \<open>Five new files; the stream of the third breaks after one byte.\<close>

definition listing_C :: "pystr list" where
  "listing_C = [ustr ''total 20'',
                ustr ''-rw-r--r-- 1 backup backup 4096 1700000500 mon.tar'',
                ustr ''-rw-r--r-- 1 backup backup 4096 1700000400 tue.tar'',
                ustr ''-rw-r--r-- 1 backup backup 4096 1700000300 wed.tar'',
                ustr ''-rw-r--r-- 1 backup backup 4096 1700000200 thu.tar'',
                ustr ''-rw-r--r-- 1 backup backup 4096 1700000100 fri.tar'']"

definition new_files_C :: "(pystr \<times> int) list" where
  "new_files_C = [(ustr ''mon.tar'', 1700000500), (ustr ''tue.tar'', 1700000400),
                  (ustr ''wed.tar'', 1700000300), (ustr ''thu.tar'', 1700000200),
                  (ustr ''fri.tar'', 1700000100)]"

definition session_C :: session where
  "session_C =
     (calm_session listing_C
        [(ustr ''mon.tar'', [1]), (ustr ''tue.tar'', [2]), (ustr ''wed.tar'', [3, 3]),
         (ustr ''thu.tar'', [4]), (ustr ''fri.tar'', [5])])
     \<lparr> file_fault := (\<lambda>i. if i = 2 then Some (At_stream 1, Fails) else None) \<rparr>"

definition staged_store :: world where
  "staged_store = \<lparr> primary = [(temp, Folder [])], roots = [], active_transfer = True,
                     journal = [] \<rparr>"

text \<open>
  Runs against the listing of \<open>a.txt\<close> and \<open>b#log.txt\<close> that are interrupted from the
  keyboard: during the first download, at the \<open>os.rmdir\<close> of the cleanup, and during the
  copy of \<open>b_log.txt\<close> into the first mirror. A run in which the server rejects the
  password. The new files and the store with which the three interrupted runs come to
  their transfer phase from an empty store.
\<close>

definition session_interrupted :: session where
  "session_interrupted =
     session_A0
     \<lparr> file_fault := (\<lambda>i. if i = 0 then Some (At_stream 1, Interrupted) else None) \<rparr>"

definition session_interrupted_cleanup :: session where
  "session_interrupted_cleanup = session_A0 \<lparr> cleanup_fault := Some (At_rmdir, Interrupted) \<rparr>"

definition session_interrupted_copy :: session where
  "session_interrupted_copy =
     session_A0
     \<lparr> copy_fault := (\<lambda>p f. if p = ustr ''E:/mirror'' \<and> f = ustr ''b_log.txt''
                             then Some (During_write 1, Interrupted) else None) \<rparr>"

definition session_rejected :: session where
  "session_rejected = session_A0 \<lparr> attempts := (\<lambda>n. AuthenticationException) \<rparr>"

definition new_files_A :: "(pystr \<times> int) list" where
  "new_files_A = [(ustr ''a.txt'', 1700000060), (ustr ''b#log.txt'', 1700000000)]"

definition started_A :: world where
  "started_A =
     \<lparr> primary = [(temp, Folder [])],
       roots = [(ustr ''E:/mirror'', []), (ustr ''F:/mirror'', [])],
       active_transfer = True,
       journal = [Log Info Starting_backup, Log Info Ssh_established,
                  Fs (MakeDirs Primary), Log Info (Ensured_directory Primary),
                  Fs (MakeDirs (Root (ustr ''E:/mirror''))),
                  Log Info (Ensured_directory (Root (ustr ''E:/mirror''))),
                  Fs (MakeDirs (Root (ustr ''F:/mirror''))),
                  Log Info (Ensured_directory (Root (ustr ''F:/mirror''))),
                  Notify Backup_Script Starting_process, Log Info Retrieving_list,
                  Fs (ListDir Primary), Log Info (New_files_to_download 2),
                  Fs (MakeDirs Staging), Flag True] \<rparr>"

text \<open>A primary root with two files and two empty mirrors; every write to the first
  mirror fails. The store after a copy to the folder \<open>backup\<close> of the volume \<open>G:\<close>.\<close>

definition store_xy :: world where
  "store_xy = \<lparr> primary = [(ustr ''x.bin'', File [1] 10), (ustr ''y.bin'', File [2] 20)],
                 roots = [(ustr ''E:/mirror'', []), (ustr ''F:/mirror'', [])],
                 active_transfer = False, journal = [] \<rparr>"

definition session_E_fails :: session where
  "session_E_fails =
     (calm_session [] [])
     \<lparr> copy_fault := (\<lambda>p f. if p = ustr ''E:/mirror'' then Some (Before_write, Fails) else None) \<rparr>"

definition usb_after :: world where
  "usb_after =
     \<lparr> primary = [(ustr ''x.bin'', File [1] 10), (ustr ''y.bin'', File [2] 20)],
       roots = [(ustr ''E:/mirror'', []), (ustr ''F:/mirror'', []),
                (ustr ''G:backup'', [(ustr ''x.bin'', File [1] 1700003600),
                                    (ustr ''y.bin'', File [2] 1700003600)])],
       active_transfer = False,
       journal = [Fs (MakeDirs (Root (ustr ''G:backup''))), Flag True, Fs (ListDir Primary),
                  Fs (Create (Root (ustr ''G:backup'')) (ustr ''x.bin'')),
                  Log Info (Copied (ustr ''x.bin'') (ustr ''G:backup'')),
                  Fs (Create (Root (ustr ''G:backup'')) (ustr ''y.bin'')),
                  Log Info (Copied (ustr ''y.bin'') (ustr ''G:backup'')),
                  Flag False] \<rparr>"

section \<open>Properties of sanitize_filename\<close>

lemma sanitize_filename_map:
  "sanitize_filename py s =
     map (\<lambda>c. if isalnum py c \<or> c \<in> {cp CHR '' '', cp CHR ''.'', cp CHR ''_'', cp CHR ''-''}
               then c else cp CHR ''_'') s"
  by (induction s) (simp_all add: sanitize_filename_def ustr_def)

lemma kept_ascii:
  "c < 128 \<Longrightarrow>
   (isalnum py c \<or> c \<in> {cp CHR '' '', cp CHR ''.'', cp CHR ''_'', cp CHR ''-''}) = spec_safe_char c"
  by (auto simp add: isalnum_def spec_safe_char_def cp_def)

text \<open>
  C1 (as amended): for every input string, \<open>sanitize_filename\<close> replaces every character that
  is neither alphanumeric in the interpreter's sense (\<open>str.isalnum\<close>) nor one of space,
  \<open>.\<close>, \<open>_\<close>, \<open>-\<close> by \<open>_\<close> and leaves every other character unchanged; on ASCII characters
  the characters it keeps are exactly those of \<open>[A-Za-z0-9 ._-]\<close>. Being a function of the
  string alone, it is deterministic and defined for every input.
\<close>

theorem sanitize_filename_chars:
  "sanitize_filename py s =
     map (\<lambda>c. if isalnum py c \<or> c \<in> {cp CHR '' '', cp CHR ''.'', cp CHR ''_'', cp CHR ''-''}
               then c else cp CHR ''_'') s
   \<and> (\<forall>c. c < 128 \<longrightarrow>
         (isalnum py c \<or> c \<in> {cp CHR '' '', cp CHR ''.'', cp CHR ''_'', cp CHR ''-''})
           = spec_safe_char c)"
  using sanitize_filename_map kept_ascii by blast

theorem sanitize_filename_chars_witness:
  "cp CHR ''/'' < 128 \<and> \<not> spec_safe_char (cp CHR ''/'')
   \<and> \<not> (isalnum latin1 (cp CHR ''/'')
          \<or> cp CHR ''/'' \<in> {cp CHR '' '', cp CHR ''.'', cp CHR ''_'', cp CHR ''-''})
   \<and> sanitize_filename latin1 (ustr ''a b/c.txt'') = ustr ''a b_c.txt''"
proof -
  have small: "cp CHR ''/'' < 128" by (simp add: cp_def)
  have out: "\<not> spec_safe_char (cp CHR ''/'')" by (simp add: spec_safe_char_def cp_def)
  note t = sanitize_filename_chars [of latin1 "ustr ''a b/c.txt''"]
  from t small out have
    "\<not> (isalnum latin1 (cp CHR ''/'')
        \<or> cp CHR ''/'' \<in> {cp CHR '' '', cp CHR ''.'', cp CHR ''_'', cp CHR ''-''})"
    by blast
  moreover from t have "sanitize_filename latin1 (ustr ''a b/c.txt'') = ustr ''a b_c.txt''"
    by (simp add: isalnum_def ustr_def cp_def)
  ultimately show ?thesis using small out by blast
qed

text \<open>
  C1 as stated fails: the letter U+00E9 lies outside \<open>[A-Za-z0-9 ._-]\<close>, and
  \<open>sanitize_filename\<close> leaves it unchanged.
\<close>

theorem sanitize_filename_keeps_e_acute:
  "\<not> spec_safe_char 233 \<and> sanitize_filename latin1 [233] = [233]"
  by (simp add: spec_safe_char_def sanitize_filename_def isalnum_def cp_def ustr_def)

text \<open>
  C10: \<open>sanitize_filename\<close> maps each character on its own, so the output is as long as the
  input; the empty string, \<open>.\<close> and \<open>..\<close> are returned as they are.
\<close>

theorem sanitize_filename_length:
  "length (sanitize_filename py s) = length s
   \<and> sanitize_filename py [] = []
   \<and> sanitize_filename py (ustr ''.'') = ustr ''.''
   \<and> sanitize_filename py (ustr ''..'') = ustr ''..''"
  by (simp add: sanitize_filename_map ustr_def cp_def)

section \<open>Properties of the new-file selection\<close>

text \<open>When the selection loop returns, the names it has selected are the sanitized last
  fields of the lines with six fields or more, less the names of the primary root.\<close>

lemma new_files_loop_selects:
  "new_files_loop py local_files listing acc = Inr new_files \<Longrightarrow>
   set (map (\<lambda>f. sanitize_filename py (fst f)) new_files)
     = set (map (\<lambda>f. sanitize_filename py (fst f)) acc)
       \<union> ({sanitize_filename py (last (split_ws py l)) |l.
             l \<in> set listing \<and> 6 \<le> length (split_ws py l)} - set local_files)"
proof (induction listing arbitrary: acc)
  case Nil
  then show ?case by simp
next
  case (Cons line rest)
  show ?case
  proof (cases "6 \<le> length (split_ws py line)
                \<and> sanitize_filename py (last (split_ws py line)) \<notin> set local_files")
    case True
    with Cons.prems obtain mtime where
      "new_files_loop py local_files rest (acc @ [(last (split_ws py line), mtime)]) = Inr new_files"
      by (auto simp add: Let_def split: option.splits)
    from Cons.IH [OF this] True show ?thesis by auto
  next
    case False
    with Cons.prems have "new_files_loop py local_files rest acc = Inr new_files"
      by (auto simp add: Let_def split: if_splits)
    from Cons.IH [OF this] False show ?thesis by auto
  qed
qed

text \<open>
  C2 at a listing the code can receive: the remote directory holds a file named
  \<open>b log.txt\<close>. Its line has eight fields, the last is \<open>log.txt\<close> and the one before it is
  \<open>b\<close>, on which \<open>int\<close> raises ValueError: no set of files is selected.
\<close>

theorem select_new_files_name_with_space:
  "select_new_files py [] [ustr ''-rw-r--r-- 1 backup backup 200 1700000000 b log.txt'']
     = Inl ValueError"
  by (simp add: select_new_files_def split_ws_def isspace_def ustr_def cp_def
        sanitize_filename_map isalnum_def int_of_str_def ascii_int_def)

section \<open>Properties of the removable-media watcher\<close>

lemma check_usb_tick_absent:
  "find_str data (cp CHR ''2'') = - 1 \<Longrightarrow> check_usb_tick cfg data (p, g) = ((None, g), None)"
  by (simp add: check_usb_tick_def)

lemma check_usb_tick_present:
  assumes "find_str data (cp CHR ''2'') = x" and "x \<noteq> - 1"
    and "slice (slice data (x - 9) x) 0 2 = u"
  shows "check_usb_tick cfg data (p, g) =
     (if Some u \<noteq> p then
        (case usb_prompted g of
           PyBool b \<Rightarrow> ((Some u, g\<lparr>lecteur := Some u\<rparr>), Some TypeError)
         | PySet s \<Rightarrow>
             if u \<notin> s then
               ((Some u, g\<lparr>lecteur := Some u, usb_queue := usb_queue g @ [(u, cfg)],
                           usb_prompted := PySet (insert u s)\<rparr>), None)
             else ((Some u, g\<lparr>lecteur := Some u\<rparr>), None))
      else ((p, g), None))"
  using assms by (simp add: check_usb_tick_def Let_def split: prompted.splits)

lemma drives_C_E_find: "find_str drives_C_E (cp CHR ''2'') = 63"
  by (simp add: drives_C_E_def eol_def ustr_def cp_def find_str_def)

lemma drives_C_E_label: "slice (slice drives_C_E (63 - 9) 63) 0 2 = ustr ''E:''"
  by (simp add: drives_C_E_def eol_def ustr_def cp_def slice_def slice_bound_def)

lemma drives_C_find: "find_str drives_C (cp CHR ''2'') = - 1"
  by (simp add: drives_C_def eol_def ustr_def cp_def find_str_def)

lemmas check_usb_tick_C_E =
  check_usb_tick_present [OF drives_C_E_find _ drives_C_E_label, simplified]

lemmas check_usb_tick_C = check_usb_tick_absent [OF drives_C_find]

lemma check_usb_tick_budget:
  assumes "check_usb_tick cfg data (p, g) = ((p', g'), r)"
  shows "requests_for v g' + may_prompt v g' \<le> requests_for v g + may_prompt v g"
  using assms
  by (auto simp add: check_usb_tick_def Let_def requests_for_def may_prompt_def
           split: if_splits prompted.splits)

lemma check_usb_loop_budget:
  "check_usb_loop cfg outputs (p, g) = ((p', g'), r) \<Longrightarrow>
   requests_for v g' + may_prompt v g' \<le> requests_for v g + may_prompt v g"
proof (induction outputs arbitrary: p g)
  case Nil
  then show ?case by simp
next
  case (Cons data later)
  obtain p1 g1 r1 where t: "check_usb_tick cfg data (p, g) = ((p1, g1), r1)"
    by (metis surj_pair)
  have b: "requests_for v g1 + may_prompt v g1 \<le> requests_for v g + may_prompt v g"
    using check_usb_tick_budget [OF t] .
  show ?case
  proof (cases r1)
    case None
    with Cons.prems t have "check_usb_loop cfg later (p1, g1) = ((p', g'), r)" by simp
    from Cons.IH [OF this] b show ?thesis by linarith
  next
    case (Some x)
    with Cons.prems t have "g' = g1" by simp
    with b show ?thesis by simp
  qed
qed

text \<open>
  C7 at the state in which the module starts the watcher: \<open>usb_prompted\<close> is bound to
  \<open>False\<close>. On two ticks that both see the volume \<open>E:\<close> the membership test
  \<open>current_usb not in usb_prompted\<close> of the first tick raises TypeError, which ends the
  thread: no request for \<open>E:\<close> is enqueued, where one is due. The same holds for every
  sequence of ticks and every volume: from this state the watcher never enqueues a
  request.
\<close>

theorem check_usb_module_state:
  "check_usb office [drives_C_E, drives_C_E] module_usb_state
     = (\<lparr>lecteur = Some (ustr ''E:''), usb_prompted = PyBool False, usb_queue = []\<rparr>,
        Some TypeError)
   \<and> requests_for (ustr ''E:'') (fst (check_usb office [drives_C_E, drives_C_E] module_usb_state)) = 0
   \<and> requests_for v (fst (check_usb cfg outputs module_usb_state)) = 0"
proof -
  have a: "check_usb office [drives_C_E, drives_C_E] module_usb_state
     = (\<lparr>lecteur = Some (ustr ''E:''), usb_prompted = PyBool False, usb_queue = []\<rparr>,
        Some TypeError)"
    by (simp add: check_usb_def check_usb_tick_C_E module_usb_state_def)
  obtain p' g' r where l: "check_usb_loop cfg outputs (None, module_usb_state) = ((p', g'), r)"
    by (metis surj_pair)
  have "requests_for v module_usb_state + may_prompt v module_usb_state = 0"
    by (simp add: requests_for_def may_prompt_def module_usb_state_def)
  with check_usb_loop_budget [OF l, of v] have "requests_for v g' = 0" by linarith
  with l have c: "requests_for v (fst (check_usb cfg outputs module_usb_state)) = 0"
    by (simp add: check_usb_def)
  from a have "requests_for (ustr ''E:'')
      (fst (check_usb office [drives_C_E, drives_C_E] module_usb_state)) = 0"
    by (simp add: requests_for_def)
  with a c show ?thesis by simp
qed

section \<open>What a run writes to the journal\<close>

named_theorems prim

lemma emit_sel [prim]:
  "journal (emit ev w) = journal w @ [ev]" "active_transfer (emit ev w) = active_transfer w"
  "primary (emit ev w) = primary w" "roots (emit ev w) = roots w"
  by (simp_all add: emit_def)

lemma logging_sel [prim]:
  "journal (logging lv m w) = journal w @ [Log lv m]"
  "active_transfer (logging lv m w) = active_transfer w"
  "primary (logging lv m w) = primary w" "roots (logging lv m w) = roots w"
  by (simp_all add: logging_def emit_def)

lemma show_notification_sel [prim]:
  "journal (show_notification t m w) = journal w @ [Notify t m]"
  "active_transfer (show_notification t m w) = active_transfer w"
  "primary (show_notification t m w) = primary w" "roots (show_notification t m w) = roots w"
  by (simp_all add: show_notification_def emit_def)

lemma send_email_sel [prim]:
  "journal (send_email t m cfg w) =
     journal w @ (if send_mail cfg = ustr ''yes'' then [Email t m] else [])"
  "active_transfer (send_email t m cfg w) = active_transfer w"
  "primary (send_email t m cfg w) = primary w" "roots (send_email t m cfg w) = roots w"
  by (simp_all add: send_email_def emit_def)

lemma set_flag_sel [prim]:
  "journal (set_flag b w) = journal w @ [Flag b]" "active_transfer (set_flag b w) = b"
  "primary (set_flag b w) = primary w" "roots (set_flag b w) = roots w"
  by (simp_all add: set_flag_def emit_def)

lemma set_staging_sel [prim]:
  "journal (set_staging d w) = journal w" "active_transfer (set_staging d w) = active_transfer w"
  "primary (set_staging d w) = AList.update temp (Folder d) (primary w)"
  "roots (set_staging d w) = roots w"
  by (simp_all add: set_staging_def)

lemma set_root_sel [prim]:
  "journal (set_root p d w) = journal w" "active_transfer (set_root p d w) = active_transfer w"
  "primary (set_root p d w) = primary w"
  "roots (set_root p d w) = AList.update p d (roots w)"
  by (simp_all add: set_root_def)

lemma grows_refl: "grows P w w"
  by (simp add: grows_def)

lemma grows_trans: "grows P w w1 \<Longrightarrow> grows P w1 w2 \<Longrightarrow> grows P w w2"
  by (auto simp add: grows_def)

lemma grows_mono: "grows P w w' \<Longrightarrow> (\<And>ev. P ev \<Longrightarrow> Q ev) \<Longrightarrow> grows Q w w'"
  by (auto simp add: grows_def list_all_iff)

lemma calm_routine: "calm ev \<Longrightarrow> routine ev"
  by (simp add: calm_def)

lemma grows_calm_routine: "grows calm w w' \<Longrightarrow> grows routine w w'"
  by (erule grows_mono) (rule calm_routine)

named_theorems grows_step

lemma grows_emit [grows_step]: "grows P w w1 \<Longrightarrow> P ev \<Longrightarrow> grows P w (emit ev w1)"
  by (auto simp add: grows_def prim)

lemma grows_logging [grows_step]:
  "grows P w w1 \<Longrightarrow> P (Log lv m) \<Longrightarrow> grows P w (logging lv m w1)"
  by (auto simp add: grows_def prim)

lemma grows_show_notification [grows_step]:
  "grows P w w1 \<Longrightarrow> P (Notify t m) \<Longrightarrow> grows P w (show_notification t m w1)"
  by (auto simp add: grows_def prim)

lemma grows_send_email [grows_step]:
  "grows P w w1 \<Longrightarrow> P (Email t m) \<Longrightarrow> grows P w (send_email t m cfg w1)"
  by (auto simp add: grows_def prim)

lemma grows_set_staging [grows_step]: "grows P w w1 \<Longrightarrow> grows P w (set_staging d w1)"
  by (auto simp add: grows_def prim)

lemma grows_set_root [grows_step]: "grows P w w1 \<Longrightarrow> grows P w (set_root p d w1)"
  by (auto simp add: grows_def prim)

lemma grows_primary_update [grows_step]: "grows P w w1 \<Longrightarrow> grows P w (w1\<lparr>primary := d\<rparr>)"
  by (auto simp add: grows_def)

lemma calm_simps:
  "calm (Log lv m)" "calm (Email t m)" "calm (Notify Backup_Script Starting_process)"
  "calm (Notify Backup_Script_Error m)" "calm (Fs (MakeDirs p))" "calm (Fs (ListDir p))"
  by (simp_all add: calm_def)

lemma routine_simps:
  "routine (Log lv m)" "routine (Email t m)" "routine (Notify Backup_Script Starting_process)"
  "routine (Notify Backup_Script_Error m)" "routine (Fs op)"
  by simp_all

lemma makedirs_root_grows [grows_step]:
  "grows P w w1 \<Longrightarrow> P (Fs (MakeDirs (Root p))) \<Longrightarrow> grows P w (makedirs_root p w1)"
  by (auto simp add: makedirs_root_def split: option.split intro!: grows_step)

lemma connect_loop_grows:
  "grows calm w w1 \<Longrightarrow> grows calm w (fst (connect_loop cfg e as w1))"
proof (induction as arbitrary: w1)
  case Nil
  then show ?case by simp
next
  case (Cons a as)
  show ?case
  proof (cases "attempts e a")
    case Connected
    then show ?thesis using Cons.prems by (auto intro!: grows_step simp add: calm_simps)
  next
    case AuthenticationException
    then show ?thesis using Cons.prems by (auto intro!: grows_step simp add: calm_simps)
  next
    case ConnectError
    then show ?thesis using Cons.prems
      by (auto simp add: Let_def calm_simps intro!: Cons.IH grows_step)
  qed
qed

lemma connect_ssh_grows: "grows calm w w1 \<Longrightarrow> grows calm w (fst (connect_ssh cfg e w1))"
  unfolding connect_ssh_def by (rule connect_loop_grows)

lemma create_directories_loop_grows:
  "grows calm w w1 \<Longrightarrow> grows calm w (fst (create_directories_loop e i ps w1))"
proof (induction ps arbitrary: i w1)
  case Nil
  then show ?case by simp
next
  case (Cons p ps)
  have "grows calm w (logging Info (Ensured_directory p)
               (case p of Root path \<Rightarrow> makedirs_root path w1 | _ \<Rightarrow> emit (Fs (MakeDirs p)) w1))"
    using Cons.prems by (cases p) (auto intro!: grows_step simp add: calm_simps)
  from Cons.IH [OF this] Cons.prems show ?case
    by (simp split: option.split)
qed

lemma create_backup_directories_grows:
  "grows calm w w1 \<Longrightarrow> grows calm w (fst (create_backup_directories cfg e w1))"
  unfolding create_backup_directories_def by (rule create_directories_loop_grows)

lemma prepare_grows: "grows calm w w0 \<Longrightarrow> grows calm w (fst (prepare py cfg e w0))"
proof -
  assume g: "grows calm w w0"
  obtain w1 r where c: "create_backup_directories cfg e w0 = (w1, r)" by (metis surj_pair)
  have "grows calm w w1" using create_backup_directories_grows [OF g, of cfg e] c by simp
  then show ?thesis using g
    by (auto simp add: prepare_def c Let_def calm_simps split: option.split sum.split
             intro!: grows_step)
qed

lemma make_temp_grows: "grows calm w w1 \<Longrightarrow> grows calm w (fst (make_temp e w1))"
  by (auto simp add: make_temp_def calm_simps split: option.split entry.split intro!: grows_step)

lemma put_staged_grows [grows_step]:
  "grows routine w w1 \<Longrightarrow> grows routine w (put_staged n ent w1)"
  by (auto simp add: put_staged_def split: option.split intro!: grows_step)

lemma promote_grows [grows_step]: "grows routine w w1 \<Longrightarrow> grows routine w (promote n w1)"
  by (auto simp add: promote_def split: option.split intro!: grows_step)

lemma set_mtime_grows:
  "grows routine w w1 \<Longrightarrow> grows routine w (fst (set_mtime e n m w1))"
  by (auto simp add: set_mtime_def split: option.split entry.split intro!: grows_step)

lemma remove_staged_grows [grows_step]:
  "grows routine w w1 \<Longrightarrow> grows routine w (remove_staged n w1)"
  by (auto simp add: remove_staged_def split: option.split intro!: grows_step)

lemma write_root_grows [grows_step]:
  "grows routine w w1 \<Longrightarrow> grows routine w (write_root p n ent w1)"
  by (auto simp add: write_root_def split: option.split intro!: grows_step)

lemma download_grows:
  "grows routine w w1 \<Longrightarrow> grows routine w (fst (download e i file sf mtime w1))"
  by (auto simp add: download_def Let_def split: option.split intro!: grows_step set_mtime_grows)

lemma download_file_grows:
  "grows routine w w1 \<Longrightarrow> grows routine w (fst (download_file py cfg e i file mtime w1))"
proof -
  assume g: "grows routine w w1"
  obtain w2 r where d: "download e i file (sanitize_filename py file) mtime w1 = (w2, r)"
    by (metis surj_pair)
  have "grows routine w w2" using download_grows [OF g, of e i "file" "sanitize_filename py file" mtime] d by simp
  then show ?thesis using g
    by (auto simp add: download_file_def Let_def d split: option.split exn.split
             intro!: grows_step)
qed

lemma download_loop_grows:
  "grows routine w w1 \<Longrightarrow> grows routine w (fst (download_loop py cfg e i nf w1))"
proof (induction nf arbitrary: i w1)
  case Nil
  then show ?case by simp
next
  case (Cons a nf)
  obtain fl mtime where a: "a = (fl, mtime)" by (cases a)
  obtain w2 r where d: "download_file py cfg e i fl mtime w1 = (w2, r)" by (metis surj_pair)
  have g2: "grows routine w w2" using download_file_grows [OF Cons.prems, of py cfg e i fl mtime] d
    by simp
  show ?case using Cons.IH [OF g2] g2 by (simp add: a d split: option.split)
qed

lemma remove_all_grows:
  "grows routine w w1 \<Longrightarrow> grows routine w (fst (remove_all e d w1))"
proof (induction d arbitrary: w1)
  case Nil
  then show ?case by simp
next
  case (Cons a d)
  obtain n ent where a: "a = (n, ent)" by (cases a)
  have "grows routine w (remove_staged n w1)" using Cons.prems by (rule grows_step)
  from Cons.IH [OF this] Cons.prems show ?case
    by (simp add: a split: option.split entry.split)
qed

lemma cleanup_temp_directory_grows:
  "grows routine w w1 \<Longrightarrow> grows routine w (fst (cleanup_temp_directory e w1))"
proof -
  assume g: "grows routine w w1"
  show ?thesis
  proof (cases "staging w1")
    case None
    then show ?thesis using g by (auto simp add: cleanup_temp_directory_def intro!: grows_step)
  next
    case (Some d)
    obtain w2 r where d: "remove_all e d (emit (Fs (ListDir Staging)) w1) = (w2, r)"
      by (metis surj_pair)
    have "grows routine w (emit (Fs (ListDir Staging)) w1)" using g by (auto intro!: grows_step)
    from remove_all_grows [OF this, of e d] d have "grows routine w w2" by simp
    then show ?thesis
      by (auto simp add: cleanup_temp_directory_def Some d split: option.split exn.split
               intro!: grows_step)
  qed
qed

lemma copy_file_grows:
  "grows routine w w1 \<Longrightarrow> grows routine w (fst (copy_file e p f w1))"
  by (auto simp add: copy_file_def split: option.split entry.split copy_stage.split
           intro!: grows_step)

lemma sync_file_grows:
  "grows routine w w1 \<Longrightarrow> grows routine w (fst (sync_file e p f w1))"
proof -
  assume g: "grows routine w w1"
  obtain w2 r where c: "copy_file e p f w1 = (w2, r)" by (metis surj_pair)
  have "grows routine w w2" using copy_file_grows [OF g, of e p f] c by simp
  then show ?thesis
    by (auto simp add: sync_file_def c split: option.split exn.split intro!: grows_step)
qed

lemma sync_files_grows:
  "grows routine w w1 \<Longrightarrow> grows routine w (fst (sync_files e p fs w1))"
proof (induction fs arbitrary: w1)
  case Nil
  then show ?case by simp
next
  case (Cons f fs)
  obtain w2 r where c: "sync_file e p f w1 = (w2, r)" by (metis surj_pair)
  have g2: "grows routine w w2" using sync_file_grows [OF Cons.prems, of e p f] c by simp
  show ?case using Cons.IH [OF g2] g2 by (simp add: c split: option.split)
qed

lemma sync_roots_grows:
  "grows routine w w1 \<Longrightarrow> grows routine w (fst (sync_roots e pf sps w1))"
proof (induction sps arbitrary: w1)
  case Nil
  then show ?case by simp
next
  case (Cons sp sps)
  define w2 where "w2 = emit (Fs (ListDir (Root sp))) (makedirs_root sp w1)"
  define todo where "todo = set_minus pf (listdir_root w2 sp)"
  obtain w3 r where c: "sync_files e sp todo w2 = (w3, r)" by (metis surj_pair)
  have "grows routine w w2" unfolding w2_def using Cons.prems by (auto intro!: grows_step)
  from sync_files_grows [OF this, of e sp todo] c have g3: "grows routine w w3" by simp
  show ?case using Cons.IH [OF g3] g3 c
    by (simp add: Let_def w2_def [symmetric] todo_def [symmetric] split: option.split)
qed

lemma synchronize_directories_grows:
  "grows routine w w1 \<Longrightarrow> grows routine w (fst (synchronize_directories e sps w1))"
  by (auto simp add: synchronize_directories_def Let_def intro!: sync_roots_grows grows_step)

lemma handle_transfer_exception_shape:
  assumes "handle_transfer_exception cfg x w = (w', out)"
  shows "\<exists>en. en \<noteq> Completed \<and> (en = Stopped_by_user) = (x = KeyboardInterrupt)
              \<and> journal w' = journal w @ ending_events cfg en \<and> out = ending_outcome en
              \<and> active_transfer w' = active_transfer w
              \<and> primary w' = primary w \<and> roots w' = roots w"
proof (cases "x = KeyboardInterrupt")
  case True
  with assms show ?thesis
    by (intro exI [of _ Stopped_by_user]) (auto simp add: handle_transfer_exception_def prim)
next
  case False
  with assms show ?thesis
    by (intro exI [of _ Stopped_by_error]) (auto simp add: handle_transfer_exception_def prim)
qed

lemma after_flag:
  assumes "grows routine (set_flag True w) wk"
  shows "\<exists>mid. journal wk = journal w @ Flag True # mid \<and> list_all routine mid
               \<and> active_transfer wk"
  using assms by (auto simp add: grows_def prim)

lemma ended:
  assumes "grows routine (set_flag True w) wk"
    and "handle_transfer_exception cfg x wk = (w', out)"
  shows "\<exists>mid en. journal w' = journal w @ Flag True # mid @ ending_events cfg en
                  \<and> list_all routine mid \<and> out = ending_outcome en \<and> active_transfer w'"
proof -
  from after_flag [OF assms(1)] obtain mid where
    m: "journal wk = journal w @ Flag True # mid" "list_all routine mid" "active_transfer wk"
    by blast
  from handle_transfer_exception_shape [OF assms(2)] obtain en where
    "journal w' = journal wk @ ending_events cfg en" "out = ending_outcome en"
    "active_transfer w' = active_transfer wk"
    by blast
  with m show ?thesis by auto
qed

lemma transfer_shape:
  assumes t: "transfer py cfg e nf w = (w', out)"
  shows "\<exists>mid en. journal w' = journal w @ Flag True # mid @ ending_events cfg en
                  \<and> list_all routine mid \<and> out = ending_outcome en \<and> active_transfer w'"
proof -
  obtain w1 r1 where d: "download_loop py cfg e 0 nf (set_flag True w) = (w1, r1)"
    by (metis surj_pair)
  have g1: "grows routine (set_flag True w) w1"
    using download_loop_grows [OF grows_refl, of "set_flag True w" py cfg e 0 nf] d by simp
  show ?thesis
  proof (cases r1)
    case (Some x)
    with t d have "handle_transfer_exception cfg x w1 = (w', out)" by (simp add: transfer_def)
    from ended [OF g1 this] show ?thesis .
  next
    case None
    obtain w2 r2 where c: "cleanup_temp_directory e w1 = (w2, r2)" by (metis surj_pair)
    have g2: "grows routine (set_flag True w) w2"
      using cleanup_temp_directory_grows [OF g1, of e] c by simp
    show ?thesis
    proof (cases r2)
      case (Some x)
      with t d c None have "handle_transfer_exception cfg x w2 = (w', out)"
        by (simp add: transfer_def)
      from ended [OF g2 this] show ?thesis .
    next
      case None2: None
      obtain w3 r3 where s: "synchronize_directories e (secondary_backup_paths cfg) w2 = (w3, r3)"
        by (metis surj_pair)
      have g3: "grows routine (set_flag True w) w3"
        using synchronize_directories_grows [OF g2, of e "secondary_backup_paths cfg"] s by simp
      show ?thesis
      proof (cases r3)
        case (Some x)
        with t d c s None None2 have "handle_transfer_exception cfg x w3 = (w', out)"
          by (simp add: transfer_def)
        from ended [OF g3 this] show ?thesis .
      next
        case None3: None
        from after_flag [OF g3] obtain mid where
          m: "journal w3 = journal w @ Flag True # mid" "list_all routine mid" "active_transfer w3"
          by blast
        from t d c s None None2 None3 have
          "w' = show_notification Backup_Script_Success Backup_complete
                  (send_email Backup_Script_Success Backup_complete cfg
                     (logging Info Backup_complete w3))" "out = Returns_True"
          by (simp_all add: transfer_def)
        with m show ?thesis
          by (intro exI [of _ mid] exI [of _ Completed]) (simp add: prim)
      qed
    qed
  qed
qed

lemma pull_shape:
  assumes p: "pull py cfg e w = (w', out)"
  shows "(grows calm w w' \<and> (\<exists>x. out = Raises x))
       \<or> (\<exists>pre. journal w' = journal w @ pre @ [Log Info No_new_files, Notify Backup_Script No_new_files]
                \<and> list_all calm pre \<and> out = Returns_None
                \<and> active_transfer w' = active_transfer w)
       \<or> (\<exists>pre mid en.
            journal w' = journal w @ pre @ Flag True # mid @ ending_events cfg en
                   @ [Flag False, Log Info Sftp_closed]
            \<and> list_all calm pre \<and> list_all routine mid \<and> out = ending_outcome en
            \<and> \<not> active_transfer w')"
proof -
  obtain w1 r1 where pr: "prepare py cfg e w = (w1, r1)" by (metis surj_pair)
  have g1: "grows calm w w1" using prepare_grows [OF grows_refl, of w py cfg e] pr by simp
  show ?thesis
  proof (cases r1)
    case (Inl x)
    with p pr g1 show ?thesis by (auto simp add: pull_def)
  next
    case (Inr nf)
    show ?thesis
    proof (cases "nf = []")
      case True
      from g1 obtain pre where "journal w1 = journal w @ pre" "list_all calm pre"
        "active_transfer w1 = active_transfer w"
        by (auto simp add: grows_def)
      with p pr Inr True show ?thesis by (auto simp add: pull_def prim)
    next
      case False
      obtain w2 r2 where mt: "make_temp e w1 = (w2, r2)" by (metis surj_pair)
      have g2: "grows calm w w2" using make_temp_grows [OF g1, of e] mt by simp
      show ?thesis
      proof (cases r2)
        case (Some x)
        with p pr Inr False mt g2 show ?thesis by (auto simp add: pull_def)
      next
        case None
        obtain w3 o3 where tr: "transfer py cfg e nf w2 = (w3, o3)" by (metis surj_pair)
        from transfer_shape [OF tr] obtain mid en where
          m: "journal w3 = journal w2 @ Flag True # mid @ ending_events cfg en"
             "list_all routine mid" "o3 = ending_outcome en"
          by blast
        from g2 obtain pre where pre: "journal w2 = journal w @ pre" "list_all calm pre"
          by (auto simp add: grows_def)
        from p pr Inr False mt None tr have
          "w' = logging Info Sftp_closed (set_flag False w3)" "out = o3"
          by (simp_all add: pull_def)
        with m pre have
          "journal w' = journal w @ pre @ Flag True # mid @ ending_events cfg en
                   @ [Flag False, Log Info Sftp_closed]
            \<and> list_all calm pre \<and> list_all routine mid \<and> out = ending_outcome en
            \<and> \<not> active_transfer w'"
          by (simp add: prim)
        then show ?thesis by blast
      qed
    qed
  qed
qed

lemma perform_backup_shape:
  assumes p: "perform_backup py cfg e w = (w', out)"
  shows "journal w' = journal w @ emitted w w' \<and> run_shape cfg (emitted w w') out
         \<and> active_transfer w' = (active_transfer w \<and> (\<forall>b. Flag b \<notin> set (emitted w w')))"
proof -
  obtain w1 ok where c: "connect_ssh cfg e (logging Info Starting_backup w) = (w1, ok)"
    by (metis surj_pair)
  have "grows calm w (logging Info Starting_backup w)"
    by (auto intro!: grows_step grows_refl simp add: calm_simps)
  from connect_ssh_grows [OF this, of cfg e] c have g1: "grows calm w w1" by simp
  then obtain es1 where es1: "journal w1 = journal w @ es1" "list_all calm es1"
    "active_transfer w1 = active_transfer w"
    by (auto simp add: grows_def)
  have noflag: "\<And>es b. list_all calm es \<Longrightarrow> Flag b \<notin> set es"
    by (auto simp add: list_all_iff calm_def)
  have noflag': "\<And>es b. list_all routine es \<Longrightarrow> Flag b \<notin> set es"
    by (auto simp add: list_all_iff)
  show ?thesis
  proof (cases ok)
    case False
    with p c have w': "w' = w1" "out = Returns_False" by (simp_all add: perform_backup_def)
    from es1 w' have em: "emitted w w' = es1" by (simp add: emitted_def)
    have "run_shape cfg es1 out" unfolding run_shape_def using es1 w' by (intro disjI1) simp
    moreover have "\<forall>b. Flag b \<notin> set es1" using noflag [OF es1(2)] by simp
    ultimately show ?thesis using es1 w' em by simp
  next
    case True
    obtain w2 o2 where pl: "pull py cfg e w1 = (w2, o2)" by (metis surj_pair)
    from p c True pl have w': "w' = logging Info Ssh_closed w2" "out = o2"
      by (simp_all add: perform_backup_def)
    from pull_shape [OF pl] consider
      (raised) x where "grows calm w1 w2" "o2 = Raises x"
    | (idle) pre where
        "journal w2 = journal w1 @ pre @ [Log Info No_new_files, Notify Backup_Script No_new_files]"
        "list_all calm pre" "o2 = Returns_None" "active_transfer w2 = active_transfer w1"
    | (ran) pre mid en where
        "journal w2 = journal w1 @ pre @ Flag True # mid @ ending_events cfg en
                   @ [Flag False, Log Info Sftp_closed]"
        "list_all calm pre" "list_all routine mid" "o2 = ending_outcome en"
        "\<not> active_transfer w2"
      by blast
    then show ?thesis
    proof cases
      case raised
      then obtain es2 where es2: "journal w2 = journal w1 @ es2" "list_all calm es2"
        "active_transfer w2 = active_transfer w1"
        by (auto simp add: grows_def)
      define X where "X = es1 @ es2 @ [Log Info Ssh_closed]"
      from es1 es2 w' have j: "journal w' = journal w @ X"
        and c: "list_all calm X" and a: "active_transfer w' = active_transfer w"
        by (simp_all add: prim calm_simps X_def)
      from j have em: "emitted w w' = X" by (simp add: emitted_def)
      have "run_shape cfg X out" unfolding run_shape_def using c raised w' by (intro disjI1) simp
      moreover have "\<forall>b. Flag b \<notin> set X" using noflag [OF c] by simp
      ultimately show ?thesis using j a em by simp
    next
      case idle
      define X where "X = (es1 @ pre)
            @ [Log Info No_new_files, Notify Backup_Script No_new_files, Log Info Ssh_closed]"
      from idle es1 w' have j: "journal w' = journal w @ X"
        and c: "list_all calm (es1 @ pre)" and a: "active_transfer w' = active_transfer w"
        by (simp_all add: prim X_def)
      from j have em: "emitted w w' = X" by (simp add: emitted_def)
      have "run_shape cfg X out"
        unfolding run_shape_def X_def using c idle w' by blast
      moreover have "\<forall>b. Flag b \<notin> set X"
        unfolding X_def using noflag [OF c] by simp
      ultimately show ?thesis using j a em by simp
    next
      case ran
      define X where "X = (es1 @ pre) @ Flag True # mid
            @ ending_events cfg en @ [Flag False, Log Info Sftp_closed, Log Info Ssh_closed]"
      from ran es1 w' have j: "journal w' = journal w @ X"
        and c: "list_all calm (es1 @ pre)" and a: "\<not> active_transfer w'"
        by (simp_all add: prim X_def)
      from j have em: "emitted w w' = X" by (simp add: emitted_def)
      have "run_shape cfg X out"
        unfolding run_shape_def X_def using c ran w' by blast
      moreover have "Flag True \<in> set X"
        unfolding X_def by simp
      ultimately show ?thesis using j a em by auto
    qed
  qed
qed

section \<open>The flag around the transfers\<close>

lemma guarded_calm: "list_all calm pre \<Longrightarrow> guarded is_transfer b (pre @ es) = guarded is_transfer b es"
proof (induction pre)
  case Nil
  show ?case by simp
next
  case (Cons ev pre)
  then show ?case by (cases ev) (simp_all add: calm_def)
qed

lemma guarded_up: "list_all routine mid \<Longrightarrow> guarded P True (mid @ es) = guarded P True es"
proof (induction mid)
  case Nil
  show ?case by simp
next
  case (Cons ev mid)
  then show ?case by (cases ev) simp_all
qed

lemma guarded_ending: "guarded P True (ending_events cfg en @ es) = guarded P True es"
  by (cases en) simp_all

lemma run_shape_guarded:
  assumes "run_shape cfg es out"
  shows "guarded is_transfer False es"
proof -
  from assms consider
    (early) "list_all calm es"
  | (idle) pre where
      "es = pre @ [Log Info No_new_files, Notify Backup_Script No_new_files, Log Info Ssh_closed]"
      "list_all calm pre"
  | (ran) pre mid en where
      "es = pre @ Flag True # mid @ ending_events cfg en
                   @ [Flag False, Log Info Sftp_closed, Log Info Ssh_closed]"
      "list_all calm pre" "list_all routine mid"
    unfolding run_shape_def by blast
  then show ?thesis
  proof cases
    case early
    from guarded_calm [OF this, of False "[]"] show ?thesis by simp
  next
    case idle
    then show ?thesis by (simp add: guarded_calm)
  next
    case ran
    then show ?thesis by (simp add: guarded_calm guarded_up guarded_ending)
  qed
qed

lemma wait_for_no_active_transfer_returns:
  assumes "wait_for_no_active_transfer w = Some w'"
  shows "w' = w \<and> \<not> active_transfer w"
  using assms
proof (rule wait_for_no_active_transfer.raw_induct [rotated])
  fix f w w'
  assume "(if \<not> active_transfer w then Some w else f w) = Some w'"
    and "\<And>x y. f x = Some y \<Longrightarrow> y = x \<and> \<not> active_transfer x"
  then show "w' = w \<and> \<not> active_transfer w" by (auto split: if_splits)
qed

lemma wait_for_no_active_transfer_idle:
  "\<not> active_transfer w \<Longrightarrow> wait_for_no_active_transfer w = Some w"
  by (subst wait_for_no_active_transfer.simps) simp

lemma copy_to_usb_loop_grows:
  "grows routine w w1 \<Longrightarrow> grows routine w (fst (copy_to_usb_loop e t fs w1))"
proof (induction fs arbitrary: w1)
  case Nil
  then show ?case by simp
next
  case (Cons f fs)
  obtain w2 r where c: "copy_file e t f w1 = (w2, r)" by (metis surj_pair)
  have g2: "grows routine w w2" using copy_file_grows [OF Cons.prems, of e t f] c by simp
  have a: "grows routine w (logging Info (Exists_at f t) w1)"
    and b: "grows routine w (logging Info (Copied f t) w2)"
    and c': "grows routine w (logging Error (Failed_to_copy_to f t) w2)"
    using Cons.prems g2 by (auto intro!: grows_step)
  show ?case using Cons.IH [OF a] Cons.IH [OF b] Cons.IH [OF c'] g2
    by (simp add: c split: option.split exn.split)
qed

lemma select_backup_folder_grows:
  "grows calm w (fst (select_backup_folder usb_path typed w))"
  by (auto simp add: select_backup_folder_def Let_def calm_simps intro!: grows_step grows_refl)

lemma copy_to_usb_shape:
  assumes c: "copy_to_usb e usb_path typed w = Some (w', r)"
  shows "guarded is_transfer False (emitted w w')
         \<and> active_transfer w' = (active_transfer w \<and> (\<forall>b. Flag b \<notin> set (emitted w w')))"
proof -
  obtain w1 t where s: "select_backup_folder usb_path typed w = (w1, t)" by (metis surj_pair)
  have "grows calm w w1" using select_backup_folder_grows [of w usb_path typed] s by simp
  then obtain pre where pre: "journal w1 = journal w @ pre" "list_all calm pre"
    "active_transfer w1 = active_transfer w"
    by (auto simp add: grows_def)
  have noflag: "\<And>es b. list_all calm es \<Longrightarrow> Flag b \<notin> set es"
    by (auto simp add: list_all_iff calm_def)
  show ?thesis
  proof (cases "t = []")
    case True
    with c s have "w' = logging Info No_folder_selected w1" by (simp add: copy_to_usb_def)
    with pre have j: "journal w' = journal w @ (pre @ [Log Info No_folder_selected])"
      and cl: "list_all calm (pre @ [Log Info No_folder_selected])"
      and a: "active_transfer w' = active_transfer w"
      by (simp_all add: prim calm_simps)
    from j have em: "emitted w w' = pre @ [Log Info No_folder_selected]" by (simp add: emitted_def)
    from guarded_calm [OF cl, of False "[]"] noflag [OF cl] a em show ?thesis by simp
  next
    case False
    with c s obtain w2 where wt: "wait_for_no_active_transfer w1 = Some w2"
      by (auto simp add: copy_to_usb_def split: option.splits)
    from wait_for_no_active_transfer_returns [OF wt] have w2: "w2 = w1" by simp
    define w3 where "w3 = emit (Fs (ListDir Primary)) (set_flag True w1)"
    obtain w4 r4 where l: "copy_to_usb_loop e t (listdir (primary w3)) w3 = (w4, r4)"
      by (metis surj_pair)
    from c s False wt w2 l have w': "w' = set_flag False w4"
      by (simp add: copy_to_usb_def Let_def w3_def)
    have "grows routine w3 w4"
      using copy_to_usb_loop_grows [OF grows_refl, of w3 e t "listdir (primary w3)"] l by simp
    then obtain mid where mid: "journal w4 = journal w3 @ mid" "list_all routine mid"
      by (auto simp add: grows_def)
    with pre w' have j: "journal w' = journal w @ (pre @ Flag True # (Fs (ListDir Primary) # mid) @ [Flag False])"
      and a: "\<not> active_transfer w'"
      by (simp_all add: prim w3_def)
    from j have em: "emitted w w' = pre @ Flag True # (Fs (ListDir Primary) # mid) @ [Flag False]"
      by (simp add: emitted_def)
    have r: "list_all routine (Fs (ListDir Primary) # mid)" using mid by simp
    have "guarded is_transfer False (emitted w w')"
      unfolding em using pre(2) r by (simp only: guarded_calm guarded.simps guarded_up)
    moreover have "Flag True \<in> set (emitted w w')" unfolding em by simp
    ultimately show ?thesis using a by auto
  qed
qed

section \<open>Evaluating the worked runs\<close>

lemmas parse_defs = select_new_files_def split_ws_def isspace_def
        sanitize_filename_map isalnum_def int_of_str_def ascii_int_def

lemmas run_defs = perform_backup_def connect_ssh_def pull_def prepare_def create_backup_directories_def
  fault_at_def make_temp_def transfer_def download_file_def download_def file_fault_at_def stream_fault_def
  put_staged_def promote_def set_mtime_def staging_def set_staging_def path_exists_def listdir_def
  cleanup_temp_directory_def cleanup_fault_at_def remove_staged_def
  synchronize_directories_def listdir_root_def set_minus_def sync_file_def copy_file_def write_root_def
  root_def set_root_def makedirs_root_def
  logging_def show_notification_def send_email_def emit_def set_flag_def temp_def handle_transfer_exception_def
  exn_of_def emitted_def calm_session_def clamped_time_def office_def empty_store_def ustr_def cp_def Let_def

lemma ten_digits: "Suc (Suc (Suc (Suc (Suc (Suc (Suc (Suc (Suc (Suc 0))))))))) = 10"
  by simp

lemma decimal_digits: "c \<in> set (decimal n) \<Longrightarrow> 48 \<le> c \<and> c \<le> 57"
proof (induction n rule: decimal.induct)
  case (1 n)
  show ?case
  proof (cases "n < 10")
    case True
    with "1.prems" show ?thesis by (simp add: decimal.simps [of n])
  next
    case False
    with "1.prems" "1.IH" show ?thesis
      by (auto simp add: decimal.simps [of n]) 
  qed
qed

lemma decimal_nonempty: "decimal n \<noteq> []"
  by (subst decimal.simps) simp

lemma decimal_no_space: "c \<in> set (decimal n) \<Longrightarrow> \<not> isspace py c"
  using decimal_digits [of c n] by (auto simp add: isspace_def)

lemma scan_digits_digits:
  "\<forall>c \<in> set ds. 48 \<le> c \<and> c \<le> 57 \<Longrightarrow> ds \<noteq> [] \<Longrightarrow>
   scan_digits prev acc n ds
     = Some (foldl (\<lambda>a c. a * 10 + (c - 48)) acc ds, n + length ds)"
proof (induction ds arbitrary: prev acc n)
  case Nil
  then show ?case by simp
next
  case (Cons c ds)
  show ?case
  proof (cases "ds = []")
    case True
    with Cons.prems show ?thesis by simp
  next
    case False
    with Cons.prems Cons.IH [of True "acc * 10 + (c - 48)" "Suc n"] show ?thesis by simp
  qed
qed

lemma decimal_value: "foldl (\<lambda>a c. a * 10 + (c - 48)) 0 (decimal n) = n"
proof (induction n rule: decimal.induct)
  case (1 n)
  show ?case
  proof (cases "n < 10")
    case True
    then show ?thesis by (simp add: decimal.simps [of n])
  next
    case False
    with "1.IH" show ?thesis by (simp add: decimal.simps [of n])
  qed
qed

lemma int_of_str_decimal:
  assumes "\<not> over_digit_limit py (length (decimal n))"
  shows "int_of_str py (decimal n) = Some (int n)"
proof -
  have d: "\<forall>c \<in> set (decimal n). 48 \<le> c \<and> c \<le> 57" using decimal_digits by blast
  obtain c r where cr: "decimal n = c # r" using decimal_nonempty [of n] by (cases "decimal n") auto
  with d have c: "c \<noteq> 43" "c \<noteq> 45" by auto
  have a: "\<forall>c \<in> set (decimal n). c < 128 \<and> \<not> isspace py c"
    using d decimal_no_space by fastforce
  have s: "scan_digits False 0 0 (decimal n) = Some (n, length (decimal n))"
    using scan_digits_digits [OF d decimal_nonempty, of False 0 0] decimal_value [of n] by simp
  from a have "int_of_str py (decimal n) = ascii_int py (decimal n)" by (simp add: int_of_str_def)
  also have "\<dots> = Some (int n)"
    using s assms c unfolding ascii_int_def cr [symmetric] 
    by (simp add: cr)
  finally show ?thesis .
qed

lemma split_run_word:
  "\<forall>c \<in> set xs. \<not> sp c \<Longrightarrow> split_run sp cur (xs @ rest) = split_run sp (cur @ xs) rest"
  by (induction xs arbitrary: cur) simp_all

lemma split_ws_ls_line:
  "split_ws py (ls_line (ustr ''100'') t (ustr ''a.txt''))
     = [ustr ''-rw-r--r--'', ustr ''1'', ustr ''backup'', ustr ''backup'', ustr ''100'',
        decimal t, ustr ''a.txt'']"
  "split_ws py (ls_line (ustr ''200'') t (ustr ''b#log.txt''))
     = [ustr ''-rw-r--r--'', ustr ''1'', ustr ''backup'', ustr ''backup'', ustr ''200'',
        decimal t, ustr ''b#log.txt'']"
  by (simp_all add: split_ws_def ls_line_def ustr_def cp_def isspace_def
        split_run_word decimal_no_space [unfolded isspace_def] decimal_nonempty)

lemma listing_A_new:
  assumes "\<not> over_digit_limit py (length (decimal t1))"
    and "\<not> over_digit_limit py (length (decimal t2))"
  shows "select_new_files py [] (listing_A t1 t2)
     = Inr (if t2 \<le> t1 then [(ustr ''a.txt'', int t1), (ustr ''b#log.txt'', int t2)]
            else [(ustr ''b#log.txt'', int t2), (ustr ''a.txt'', int t1)])"
proof -
  have "split_ws py (ustr ''total 8'') = [ustr ''total'', ustr ''8'']"
    by (simp add: split_ws_def ustr_def cp_def isspace_def)
  with assms show ?thesis
    by (simp add: select_new_files_def listing_A_def int_of_str_decimal
          split_ws_ls_line [unfolded ustr_def cp_def, simplified]
          sanitize_filename_map isalnum_def ustr_def cp_def)
qed

lemma listing_A_old:
  "select_new_files py [ustr ''a.txt'', ustr ''b_log.txt''] (listing_A t1 t2) = Inr []"
  "select_new_files py [ustr ''b_log.txt'', ustr ''a.txt''] (listing_A t1 t2) = Inr []"
proof -
  have "split_ws py (ustr ''total 8'') = [ustr ''total'', ustr ''8'']"
    by (simp add: split_ws_def ustr_def cp_def isspace_def)
  then show
    "select_new_files py [ustr ''a.txt'', ustr ''b_log.txt''] (listing_A t1 t2) = Inr []"
    "select_new_files py [ustr ''b_log.txt'', ustr ''a.txt''] (listing_A t1 t2) = Inr []"
    by (simp_all add: select_new_files_def listing_A_def
          split_ws_ls_line [unfolded ustr_def cp_def, simplified]
          sanitize_filename_map isalnum_def ustr_def cp_def)
qed

lemma first_pull:
  assumes "\<not> over_digit_limit py (length (decimal t1))"
    and "\<not> over_digit_limit py (length (decimal t2))"
    and r: "t1 \<le> 15032385535" "t2 \<le> 15032385535"
  shows "snd (perform_backup py office (session_A t1 t2 c1 c2) empty_store) = Returns_True"
    and "primary (fst (perform_backup py office (session_A t1 t2 c1 c2) empty_store))
           = (if t2 \<le> t1
              then [(ustr ''a.txt'', File c1 (int t1)), (ustr ''b_log.txt'', File c2 (int t2))]
              else [(ustr ''b_log.txt'', File c2 (int t2)), (ustr ''a.txt'', File c1 (int t1))])"
proof -
  note l = listing_A_new [OF assms(1,2), unfolded ustr_def cp_def, simplified]
  show "snd (perform_backup py office (session_A t1 t2 c1 c2) empty_store) = Returns_True"
  proof (cases "t2 \<le> t1")
    case True
    with l r show ?thesis
      by (simp add: run_defs session_A_def sanitize_filename_map isalnum_def)
  next
    case False
    with l r show ?thesis
      by (simp add: run_defs session_A_def sanitize_filename_map isalnum_def)
  qed
  show "primary (fst (perform_backup py office (session_A t1 t2 c1 c2) empty_store))
           = (if t2 \<le> t1
              then [(ustr ''a.txt'', File c1 (int t1)), (ustr ''b_log.txt'', File c2 (int t2))]
              else [(ustr ''b_log.txt'', File c2 (int t2)), (ustr ''a.txt'', File c1 (int t1))])"
  proof (cases "t2 \<le> t1")
    case True
    with l r show ?thesis
      by (simp add: run_defs session_A_def sanitize_filename_map isalnum_def)
  next
    case False
    with l r show ?thesis
      by (simp add: run_defs session_A_def sanitize_filename_map isalnum_def)
  qed
qed

lemma second_pull:
  assumes "\<not> over_digit_limit py (length (decimal t1))"
    and "\<not> over_digit_limit py (length (decimal t2))"
    and r: "t1 \<le> 15032385535" "t2 \<le> 15032385535"
  shows "snd (perform_backup py office (session_A t1 t2 c1 c2)
               (fst (perform_backup py office (session_A t1 t2 c1 c2) empty_store))) = Returns_None"
    and "primary (fst (perform_backup py office (session_A t1 t2 c1 c2)
               (fst (perform_backup py office (session_A t1 t2 c1 c2) empty_store))))
           = primary (fst (perform_backup py office (session_A t1 t2 c1 c2) empty_store))"
    and "filter is_transfer (emitted (fst (perform_backup py office (session_A t1 t2 c1 c2) empty_store))
           (fst (perform_backup py office (session_A t1 t2 c1 c2)
               (fst (perform_backup py office (session_A t1 t2 c1 c2) empty_store))))) = []"
proof -
  note l = listing_A_new [OF assms(1,2), unfolded ustr_def cp_def, simplified]
    listing_A_old [of py t1 t2, unfolded ustr_def cp_def, simplified]
  have "snd (perform_backup py office (session_A t1 t2 c1 c2)
               (fst (perform_backup py office (session_A t1 t2 c1 c2) empty_store))) = Returns_None
    \<and> primary (fst (perform_backup py office (session_A t1 t2 c1 c2)
               (fst (perform_backup py office (session_A t1 t2 c1 c2) empty_store))))
           = primary (fst (perform_backup py office (session_A t1 t2 c1 c2) empty_store))
    \<and> filter is_transfer (emitted (fst (perform_backup py office (session_A t1 t2 c1 c2) empty_store))
           (fst (perform_backup py office (session_A t1 t2 c1 c2)
               (fst (perform_backup py office (session_A t1 t2 c1 c2) empty_store))))) = []"
  proof (cases "t2 \<le> t1")
    case True
    with l r show ?thesis
      by (simp add: run_defs session_A_def sanitize_filename_map isalnum_def)
  next
    case False
    with l r show ?thesis
      by (simp add: run_defs session_A_def sanitize_filename_map isalnum_def)
  qed
  then show "snd (perform_backup py office (session_A t1 t2 c1 c2)
               (fst (perform_backup py office (session_A t1 t2 c1 c2) empty_store))) = Returns_None"
    and "primary (fst (perform_backup py office (session_A t1 t2 c1 c2)
               (fst (perform_backup py office (session_A t1 t2 c1 c2) empty_store))))
           = primary (fst (perform_backup py office (session_A t1 t2 c1 c2) empty_store))"
    and "filter is_transfer (emitted (fst (perform_backup py office (session_A t1 t2 c1 c2) empty_store))
           (fst (perform_backup py office (session_A t1 t2 c1 c2)
               (fst (perform_backup py office (session_A t1 t2 c1 c2) empty_store))))) = []"
    by simp_all
qed

lemma decimal_1700000060: "decimal 1700000060 = ustr ''1700000060''"
  by (simp add: decimal.simps ustr_def cp_def)

lemma decimal_1700000000: "decimal 1700000000 = ustr ''1700000000''"
  by (simp add: decimal.simps ustr_def cp_def)

lemma latin1_digits:
  "\<not> over_digit_limit latin1 (length (decimal 1700000060))"
  "\<not> over_digit_limit latin1 (length (decimal 1700000000))"
  by (simp_all add: decimal_1700000060 decimal_1700000000 latin1_def ustr_def)

lemma listing_A0_new:
  "select_new_files latin1 [] (listing_A 1700000060 1700000000)
     = Inr [(ustr ''a.txt'', 1700000060), (ustr ''b#log.txt'', 1700000000)]"
  using listing_A_new [OF latin1_digits] by simp

lemma listing_A_literal:
  "listing_A 1700000060 1700000000
     = [ustr ''total 8'',
        ustr ''-rw-r--r-- 1 backup backup 100 1700000060 a.txt'',
        ustr ''-rw-r--r-- 1 backup backup 200 1700000000 b#log.txt'']"
  by (simp add: listing_A_def ls_line_def decimal_1700000060 decimal_1700000000 ustr_def)

lemma listing_C_new: "select_new_files latin1 [] listing_C = Inr new_files_C"
  by (simp add: listing_C_def new_files_C_def parse_defs ustr_def cp_def ten_digits latin1_def)

lemma copy_to_usb_G:
  "copy_to_usb (calm_session [] []) (ustr ''G:'') ([], ustr ''backup'') store_xy
     = Some (usb_after, None)"
  by (simp add: copy_to_usb_def select_backup_folder_def path_join_def
        wait_for_no_active_transfer_idle run_defs store_xy_def usb_after_def)

lemma run_A:
  "snd (perform_backup latin1 office session_A0 empty_store) = Returns_True"
  using first_pull(1) [OF latin1_digits] by (simp add: session_A0_def)

text \<open>
  C6 (as amended): the remote pull and the removable-media copy raise \<open>active_transfer\<close>
  before they write, rename, re-time or remove any file, though only after they have
  created and listed the directories they need; and once an operation has raised the
  flag it lowers it on every exit, whether it returns or leaves by an exception or an
  interruption. An operation that ends before its transfer phase leaves the flag as it
  found it.
\<close>

theorem active_transfer_discipline:
  "(perform_backup py cfg e w = (w', out) \<longrightarrow>
      guarded is_transfer False (emitted w w')
      \<and> active_transfer w' = (active_transfer w \<and> (\<forall>b. Flag b \<notin> set (emitted w w'))))
   \<and> (copy_to_usb eu usb_path typed u = Some (u', r) \<longrightarrow>
      guarded is_transfer False (emitted u u')
      \<and> active_transfer u' = (active_transfer u \<and> (\<forall>b. Flag b \<notin> set (emitted u u'))))"
  using perform_backup_shape [of py cfg e w w' out] run_shape_guarded [of cfg "emitted w w'" out]
    copy_to_usb_shape [of eu usb_path typed u u' r]
  by blast

theorem active_transfer_discipline_witness:
  "guarded is_transfer False
     (emitted empty_store (fst (perform_backup latin1 office session_A0 empty_store)))
   \<and> Flag True \<in> set (emitted empty_store
        (fst (perform_backup latin1 office session_A0 empty_store)))
   \<and> \<not> active_transfer (fst (perform_backup latin1 office session_A0 empty_store))
   \<and> copy_to_usb (calm_session [] []) (ustr ''G:'') ([], ustr ''backup'') store_xy
        = Some (usb_after, None)
   \<and> guarded is_transfer False (emitted store_xy usb_after)
   \<and> \<not> active_transfer usb_after"
proof -
  have r: "perform_backup latin1 office session_A0 empty_store
     = (fst (perform_backup latin1 office session_A0 empty_store),
        snd (perform_backup latin1 office session_A0 empty_store))" by simp
  have f: "Flag True \<in> set (emitted empty_store
        (fst (perform_backup latin1 office session_A0 empty_store)))"
    using listing_A0_new [unfolded ustr_def cp_def, simplified]
    by (simp add: run_defs session_A0_def session_A_def sanitize_filename_map isalnum_def)
  note t = active_transfer_discipline [where py = latin1 and cfg = office
      and e = session_A0 and w = empty_store
      and w' = "fst (perform_backup latin1 office session_A0 empty_store)"
      and out = "snd (perform_backup latin1 office session_A0 empty_store)"
      and eu = "calm_session [] []" and usb_path = "ustr ''G:''"
      and typed = "([], ustr ''backup'')" and u = store_xy and u' = usb_after and r = None]
  from t r have q1: "guarded is_transfer False
     (emitted empty_store (fst (perform_backup latin1 office session_A0 empty_store)))
    \<and> active_transfer (fst (perform_backup latin1 office session_A0 empty_store))
        = (active_transfer empty_store \<and> (\<forall>b. Flag b \<notin> set (emitted empty_store
             (fst (perform_backup latin1 office session_A0 empty_store)))))"
    by blast
  from t copy_to_usb_G have q2: "guarded is_transfer False (emitted store_xy usb_after)"
    by blast
  have q3: "\<not> active_transfer usb_after" by (simp add: usb_after_def)
  from q1 f q2 q3 copy_to_usb_G show ?thesis by blast
qed

text \<open>
  C6 as stated fails: in the pull of \<open>a.txt\<close> and \<open>b#log.txt\<close> into an empty store, and in
  the copy to a new folder of the volume \<open>G:\<close>, an operation on the filesystem (the
  creation of a directory) comes before the flag is raised.
\<close>

theorem directories_before_flag:
  "\<not> guarded touches_filesystem False
       (emitted empty_store (fst (perform_backup latin1 office session_A0 empty_store)))
   \<and> copy_to_usb (calm_session [] []) (ustr ''G:'') ([], ustr ''backup'') store_xy
        = Some (usb_after, None)
   \<and> \<not> guarded touches_filesystem False (emitted store_xy usb_after)"
proof -
  have "\<not> guarded touches_filesystem False
       (emitted empty_store (fst (perform_backup latin1 office session_A0 empty_store)))"
    using listing_A0_new [unfolded ustr_def cp_def, simplified]
    by (simp add: run_defs session_A0_def session_A_def sanitize_filename_map isalnum_def)
  moreover have "\<not> guarded touches_filesystem False (emitted store_xy usb_after)"
    by (simp add: emitted_def store_xy_def usb_after_def)
  ultimately show ?thesis using copy_to_usb_G by simp
qed

section \<open>Mirror synchronisation\<close>

lemma only_adds_refl: "only_adds w w"
  by (simp add: only_adds_def)

lemma only_adds_trans: "only_adds w w1 \<Longrightarrow> only_adds w1 w2 \<Longrightarrow> only_adds w w2"
  unfolding only_adds_def by (metis subset_trans)

lemma root_sel [prim]:
  "root (emit ev w) q = root w q" "root (logging lv m w) q = root w q"
  "root (set_root p d w) q = (if q = p then Some d else root w q)"
  by (simp_all add: root_def prim update_conv')

lemma listdir_update: "set (listdir (AList.update n ent d)) = insert n (set (listdir d))"
  by (simp add: listdir_def dom_update)

lemma write_root_only_adds: "only_adds w (write_root p n ent w)"
  by (auto simp add: only_adds_def write_root_def prim listdir_update split: option.split)

lemma write_root_present:
  "root w p = Some d \<Longrightarrow> \<exists>d'. root (write_root p n ent w) p = Some d' \<and> n \<in> set (listdir d')"
  by (simp add: write_root_def prim listdir_update)

lemma copy_file_only_adds: "only_adds w (fst (copy_file e p f w))"
  by (auto simp add: copy_file_def only_adds_refl write_root_only_adds
           split: option.split entry.split copy_stage.split)

lemma copy_file_present:
  "copy_file e p f w = (w', None) \<Longrightarrow> \<exists>d'. root w' p = Some d' \<and> f \<in> set (listdir d')"
  by (auto simp add: copy_file_def write_root_present
           split: option.splits entry.splits copy_stage.splits)

lemma only_adds_logging: "only_adds w w1 \<Longrightarrow> only_adds w (logging lv m w1)"
  by (simp add: only_adds_def prim)

lemma only_adds_emit: "only_adds w w1 \<Longrightarrow> only_adds w (emit ev w1)"
  by (simp add: only_adds_def prim)

lemma sync_file_only_adds: "only_adds w (fst (sync_file e p f w))"
proof -
  obtain w1 r where c: "copy_file e p f w = (w1, r)" by (metis surj_pair)
  have "only_adds w w1" using copy_file_only_adds [of w e p f] c by simp
  then show ?thesis
    by (auto simp add: sync_file_def c only_adds_logging split: option.split exn.split)
qed

lemma sync_file_present:
  assumes "sync_file e p f w = (w', None)"
  shows "\<exists>d'. root w' p = Some d' \<and> f \<in> set (listdir d')"
proof -
  obtain w1 r where c: "copy_file e p f w = (w1, r)" by (metis surj_pair)
  with assms have r: "r = None" and w': "w' = logging Info (Copied f p) w1"
    by (auto simp add: sync_file_def split: option.splits exn.splits)
  from copy_file_present [OF c [unfolded r]] w' show ?thesis by (simp add: prim)
qed

lemma sync_files_only_adds: "only_adds w (fst (sync_files e p fs w))"
proof (induction fs arbitrary: w)
  case Nil
  show ?case by (simp add: only_adds_refl)
next
  case (Cons f fs)
  obtain w1 r where c: "sync_file e p f w = (w1, r)" by (metis surj_pair)
  have a: "only_adds w w1" using sync_file_only_adds [of w e p f] c by simp
  show ?case using only_adds_trans [OF a Cons.IH [of w1]] a
    by (simp add: c split: option.split)
qed

lemma sync_files_present:
  "sync_files e p fs w = (w', None) \<Longrightarrow>
   \<forall>f \<in> set fs. \<exists>d'. root w' p = Some d' \<and> f \<in> set (listdir d')"
proof (induction fs arbitrary: w)
  case Nil
  show ?case by simp
next
  case (Cons f fs)
  obtain w1 r where c: "sync_file e p f w = (w1, r)" by (metis surj_pair)
  with Cons.prems have r: "r = None" and rest: "sync_files e p fs w1 = (w', None)"
    by (auto split: option.splits)
  from sync_file_present [OF c [unfolded r]] obtain d1 where
    d1: "root w1 p = Some d1" "f \<in> set (listdir d1)" by blast
  have "only_adds w1 w'" using sync_files_only_adds [of w1 e p fs] rest by simp
  with d1 have "\<exists>d'. root w' p = Some d' \<and> f \<in> set (listdir d')"
    unfolding only_adds_def by blast
  with Cons.IH [OF rest] show ?case by simp
qed

lemma makedirs_root_only_adds: "only_adds w (makedirs_root p w)"
  by (auto simp add: only_adds_def makedirs_root_def prim split: option.split)

lemma makedirs_root_exists: "\<exists>d. root (makedirs_root p w) p = Some d"
  by (auto simp add: makedirs_root_def prim split: option.split)

lemma sync_roots_only_adds: "only_adds w (fst (sync_roots e pf sps w))"
proof (induction sps arbitrary: w)
  case Nil
  show ?case by (simp add: only_adds_refl)
next
  case (Cons sp sps)
  define w1 where "w1 = emit (Fs (ListDir (Root sp))) (makedirs_root sp w)"
  define todo where "todo = set_minus pf (listdir_root w1 sp)"
  obtain w2 r where c: "sync_files e sp todo w1 = (w2, r)" by (metis surj_pair)
  have a1: "only_adds w w1" unfolding w1_def by (intro only_adds_emit makedirs_root_only_adds)
  have a2: "only_adds w1 w2" using sync_files_only_adds [of w1 e sp todo] c by simp
  have a: "only_adds w w2" using only_adds_trans [OF a1 a2] .
  show ?case using only_adds_trans [OF a Cons.IH [of w2]] a c
    by (simp add: Let_def w1_def [symmetric] todo_def [symmetric] split: option.split)
qed

lemma sync_roots_converged:
  "sync_roots e pf sps w = (w', None) \<Longrightarrow>
   \<forall>sp \<in> set sps. \<exists>d. root w' sp = Some d \<and> set pf \<subseteq> set (listdir d)"
proof (induction sps arbitrary: w)
  case Nil
  show ?case by simp
next
  case (Cons sp sps)
  define w1 where "w1 = emit (Fs (ListDir (Root sp))) (makedirs_root sp w)"
  define todo where "todo = set_minus pf (listdir_root w1 sp)"
  obtain w2 r where c: "sync_files e sp todo w1 = (w2, r)" by (metis surj_pair)
  with Cons.prems have r: "r = None" and rest: "sync_roots e pf sps w2 = (w', None)"
    by (auto simp add: Let_def w1_def [symmetric] todo_def [symmetric] split: option.splits)
  obtain d1 where d1: "root w1 sp = Some d1"
    using makedirs_root_exists [of sp w] by (auto simp add: w1_def prim)
  have a2: "only_adds w1 w2" using sync_files_only_adds [of w1 e sp todo] c by simp
  with d1 obtain d2 where d2: "root w2 sp = Some d2" "set (listdir d1) \<subseteq> set (listdir d2)"
    unfolding only_adds_def by blast
  have copied: "\<forall>f \<in> set todo. f \<in> set (listdir d2)"
    using sync_files_present [OF c [unfolded r]] d2 by auto
  have "set pf \<subseteq> set (listdir d2)"
  proof
    fix f assume f: "f \<in> set pf"
    show "f \<in> set (listdir d2)"
    proof (cases "f \<in> set (listdir d1)")
      case True
      with d2 show ?thesis by blast
    next
      case False
      with f d1 have "f \<in> set todo" by (simp add: todo_def set_minus_def listdir_root_def)
      with copied show ?thesis by blast
    qed
  qed
  moreover have "only_adds w2 w'" using sync_roots_only_adds [of w2 e pf sps] rest by simp
  ultimately have here: "\<exists>d. root w' sp = Some d \<and> set pf \<subseteq> set (listdir d)"
    using d2 unfolding only_adds_def by (metis subset_trans)
  from Cons.IH [OF rest] here show ?case by simp
qed

lemma synchronize_directories_converged:
  assumes "synchronize_directories e sps w = (w', None)"
  shows "primary w' = primary w
         \<and> (\<forall>sp \<in> set sps. \<exists>d. root w' sp = Some d \<and> set (listdir (primary w')) \<subseteq> set (listdir d))"
proof -
  define w1 where "w1 = emit (Fs (ListDir Primary)) w"
  from assms have s: "sync_roots e (remdups (listdir (primary w1))) sps w1 = (w', None)"
    by (simp add: synchronize_directories_def Let_def w1_def)
  have "only_adds w1 w'"
    using sync_roots_only_adds [of w1 e "remdups (listdir (primary w1))" sps] s by simp
  then have p: "primary w' = primary w" by (simp add: only_adds_def w1_def prim)
  from sync_roots_converged [OF s] p show ?thesis by (simp add: w1_def prim)
qed

lemma transfer_true:
  assumes "transfer py cfg e nf w = (w', Returns_True)"
  shows "\<exists>w2 w3. synchronize_directories e (secondary_backup_paths cfg) w2 = (w3, None)
                 \<and> primary w' = primary w3 \<and> roots w' = roots w3"
proof -
  have h: "\<And>x wk. handle_transfer_exception cfg x wk \<noteq> (w', Returns_True)"
    by (auto simp add: handle_transfer_exception_def)
  obtain w1 r1 where d: "download_loop py cfg e 0 nf (set_flag True w) = (w1, r1)"
    by (metis surj_pair)
  obtain w2 r2 where c: "cleanup_temp_directory e w1 = (w2, r2)" by (metis surj_pair)
  obtain w3 r3 where s: "synchronize_directories e (secondary_backup_paths cfg) w2 = (w3, r3)"
    by (metis surj_pair)
  from assms h have "r1 = None" by (cases r1) (auto simp add: transfer_def d)
  moreover from assms h this have "r2 = None" by (cases r2) (auto simp add: transfer_def d c)
  moreover from assms h this \<open>r1 = None\<close> have "r3 = None"
    by (cases r3) (auto simp add: transfer_def d c s)
  ultimately have "primary w' = primary w3 \<and> roots w' = roots w3"
    using assms by (auto simp add: transfer_def d c s prim)
  with s \<open>r3 = None\<close> show ?thesis by blast
qed

text \<open>
  C8: after a pull that returns True, every name listed in the primary root is listed in
  every secondary root.
\<close>

theorem mirror_convergence:
  assumes "perform_backup py cfg e w = (w', Returns_True)"
  shows "\<forall>sp \<in> set (secondary_backup_paths cfg).
           \<exists>d. root w' sp = Some d \<and> set (listdir (primary w')) \<subseteq> set (listdir d)"
proof -
  obtain w1 ok where c: "connect_ssh cfg e (logging Info Starting_backup w) = (w1, ok)"
    by (metis surj_pair)
  obtain w2 o2 where pl: "pull py cfg e w1 = (w2, o2)" by (metis surj_pair)
  from assms c pl have ok: "ok" and o2: "o2 = Returns_True" and w': "w' = logging Info Ssh_closed w2"
    by (auto simp add: perform_backup_def split: bool.splits if_splits)
  obtain wp rp where pr: "prepare py cfg e w1 = (wp, rp)" by (metis surj_pair)
  from pl o2 pr obtain nf where rp: "rp = Inr nf" "nf \<noteq> []"
    by (cases rp) (auto simp add: pull_def split: if_splits)
  obtain wt rt where mt: "make_temp e wp = (wt, rt)" by (metis surj_pair)
  from pl o2 pr rp mt have rt: "rt = None" by (cases rt) (auto simp add: pull_def)
  obtain w3 o3 where tr: "transfer py cfg e nf wt = (w3, o3)" by (metis surj_pair)
  from pl o2 pr rp mt rt tr have o3: "o3 = Returns_True"
    and w2: "w2 = logging Info Sftp_closed (set_flag False w3)"
    by (auto simp add: pull_def)
  from transfer_true [OF tr [unfolded o3]] obtain v2 v3 where
    s: "synchronize_directories e (secondary_backup_paths cfg) v2 = (v3, None)"
    and same: "primary w3 = primary v3" "roots w3 = roots v3"
    by blast
  from same w2 w' have "primary w' = primary v3" "\<And>q. root w' q = root v3 q"
    by (simp_all add: prim root_def)
  with synchronize_directories_converged [OF s] show ?thesis by auto
qed

theorem mirror_convergence_witness:
  "perform_backup latin1 office session_A0 empty_store
     = (fst (perform_backup latin1 office session_A0 empty_store), Returns_True)
   \<and> (\<exists>d. root (fst (perform_backup latin1 office session_A0 empty_store))
               (ustr ''E:/mirror'') = Some d
          \<and> set (listdir (primary
                 (fst (perform_backup latin1 office session_A0 empty_store))))
                \<subseteq> set (listdir d))
   \<and> (\<exists>d. root (fst (perform_backup latin1 office session_A0 empty_store))
               (ustr ''F:/mirror'') = Some d
          \<and> set (listdir (primary
                 (fst (perform_backup latin1 office session_A0 empty_store))))
                \<subseteq> set (listdir d))"
proof -
  have r: "perform_backup latin1 office session_A0 empty_store
     = (fst (perform_backup latin1 office session_A0 empty_store), Returns_True)"
    using run_A by (metis prod.collapse)
  have s: "secondary_backup_paths office = [ustr ''E:/mirror'', ustr ''F:/mirror'']"
    by (simp add: office_def)
  from mirror_convergence [OF r] have
    "\<forall>sp \<in> set [ustr ''E:/mirror'', ustr ''F:/mirror''].
       \<exists>d. root (fst (perform_backup latin1 office session_A0 empty_store)) sp
              = Some d
          \<and> set (listdir (primary
               (fst (perform_backup latin1 office session_A0 empty_store))))
              \<subseteq> set (listdir d)"
    unfolding s .
  with r show ?thesis by simp
qed

text \<open>
  C4 at a store the code can meet: the primary root holds \<open>x.bin\<close> and \<open>y.bin\<close>, both
  mirrors are empty, and writing into the first mirror fails. The failure of the first
  copy is logged; then the handler itself raises TypeError, which ends
  \<open>synchronize_directories\<close>: no notification is sent, \<open>y.bin\<close> is not tried, and the second
  mirror is not visited.
\<close>

theorem synchronize_directories_copy_failure:
  "synchronize_directories session_E_fails [ustr ''E:/mirror'', ustr ''F:/mirror''] store_xy
     = (store_xy \<lparr> journal := [Fs (ListDir Primary), Fs (MakeDirs (Root (ustr ''E:/mirror''))),
                               Fs (ListDir (Root (ustr ''E:/mirror''))),
                               Log Error (Failed_to_copy_to (ustr ''x.bin'') (ustr ''E:/mirror''))] \<rparr>,
        Some TypeError)"
  by (simp add: run_defs session_E_fails_def store_xy_def)

section \<open>The download loop\<close>

lemma staging_iff: "staging w = Some d \<longleftrightarrow> map_of (primary w) temp = Some (Folder d)"
  by (simp add: staging_def split: option.split entry.split)

lemma staging_sel [prim]:
  "staging (emit ev w) = staging w" "staging (logging lv m w) = staging w"
  "staging (show_notification t m w) = staging w" "staging (send_email t m cfg w) = staging w"
  "staging (set_flag b w) = staging w"
  by (simp_all add: staging_def prim)

lemma temp_listed: "staging w = Some d \<Longrightarrow> temp \<in> set (listdir (primary w))"
  by (auto simp add: staging_iff listdir_def dest: map_of_SomeD intro: rev_image_eqI)

lemma put_staged_staging:
  "staging w = Some d \<Longrightarrow> staging (put_staged n ent w) = Some (AList.update n ent d)"
  by (simp add: put_staged_def prim staging_def update_conv')

lemma put_staged_listing:
  "staging w = Some d \<Longrightarrow>
   set (listdir (primary (put_staged n ent w))) = set (listdir (primary w))"
  using temp_listed [of w d]
  by (auto simp add: put_staged_def prim listdir_update)

lemma promote_staging:
  "staging w = Some d \<Longrightarrow> map_of d n = Some ent \<Longrightarrow> n \<noteq> temp \<Longrightarrow>
   staging (promote n w) = Some (AList.delete n d)"
  by (simp add: promote_def prim staging_def update_conv')

lemma promote_listing:
  "staging w = Some d \<Longrightarrow> map_of d n = Some ent \<Longrightarrow>
   set (listdir (primary (promote n w))) = insert n (set (listdir (primary w)))"
  using temp_listed [of w d]
  by (auto simp add: promote_def prim listdir_update)

lemma map_of_listed: "map_of d n = Some x \<Longrightarrow> n \<in> set (listdir d)"
  by (auto simp add: listdir_def dest: map_of_SomeD intro: rev_image_eqI)

lemma set_mtime_listing:
  "set (listdir (primary (fst (set_mtime e n m w)))) = set (listdir (primary w))"
  using map_of_listed [of "primary w" n]
  by (auto simp add: set_mtime_def prim listdir_update split: option.split entry.split)

lemma set_mtime_staging: "n \<noteq> temp \<Longrightarrow> staging (fst (set_mtime e n m w)) = staging w"
  by (simp add: set_mtime_def prim staging_def update_conv' split: option.split entry.split)

lemma set_mtime_raises: "snd (set_mtime e n m w) \<noteq> Some KeyboardInterrupt"
  by (simp add: set_mtime_def split: option.split entry.split)

lemma set_mtime_run:
  assumes "set_mtime e n m w = (w', r)"
  shows "set (listdir (primary w')) = set (listdir (primary w))
     \<and> (n \<noteq> temp \<longrightarrow> staging w' = staging w) \<and> r \<noteq> Some KeyboardInterrupt"
  using set_mtime_listing [of e n m w] set_mtime_staging [of n e m w] set_mtime_raises [of e n m w]
    assms by simp

lemma delete_listing: "set (listdir (AList.delete n d)) \<subseteq> set (listdir d)"
  using dom_delete_subset [of n d] by (simp add: listdir_def)

lemma download_effect:
  assumes st: "staging w = Some d"
    and fresh: "sf \<notin> set (listdir (primary w))"
    and run: "download e i fl sf mtime w = (w', r)"
  shows "set (listdir (primary w)) \<subseteq> set (listdir (primary w'))"
    and "\<exists>d'. staging w' = Some d' \<and> set (listdir d') \<subseteq> insert sf (set (listdir d))"
    and "file_fault e i = None \<Longrightarrow> fetch e fl \<noteq> None \<Longrightarrow> sf \<in> set (listdir (primary w'))"
    and "\<forall>s. file_fault e i \<noteq> Some (s, Interrupted) \<Longrightarrow> r \<noteq> Some KeyboardInterrupt"
proof -
  from st fresh have nt: "sf \<noteq> temp" using temp_listed by blast
  define w1 where "w1 = (\<lambda>c. put_staged sf (File c (clock e)) w)"
  define w2 where "w2 = (\<lambda>c. logging Info (Downloaded sf) (w1 c))"
  define w3 where "w3 = (\<lambda>c. logging Info (Moved sf) (promote sf (w2 c)))"
  have s1: "\<And>c. staging (w1 c) = Some (AList.update sf (File c (clock e)) d)"
    and l1: "\<And>c. set (listdir (primary (w1 c))) = set (listdir (primary w))"
    unfolding w1_def using st by (simp_all add: put_staged_staging put_staged_listing)
  have s2: "\<And>c. staging (w2 c) = Some (AList.update sf (File c (clock e)) d)"
    and l2: "\<And>c. set (listdir (primary (w2 c))) = set (listdir (primary w))"
    unfolding w2_def using s1 l1 by (simp_all add: prim)
  have m2: "\<And>c. map_of (AList.update sf (File c (clock e)) d) sf = Some (File c (clock e))"
    by (simp add: update_conv')
  have s3: "\<And>c. staging (w3 c) = Some (AList.delete sf (AList.update sf (File c (clock e)) d))"
    and l3: "\<And>c. set (listdir (primary (w3 c))) = insert sf (set (listdir (primary w)))"
    unfolding w3_def using promote_staging [OF s2 m2 nt] promote_listing [OF s2 m2] l2
    by (simp_all add: prim)
  have d3: "\<And>c. set (listdir (AList.delete sf (AList.update sf (File c (clock e)) d)))
                  \<subseteq> insert sf (set (listdir d))"
    using delete_listing listdir_update by (metis subset_trans subset_refl)
  have s4: "\<And>c. staging (fst (set_mtime e sf mtime (w3 c)))
                 = Some (AList.delete sf (AList.update sf (File c (clock e)) d))"
    and l4: "\<And>c. set (listdir (primary (fst (set_mtime e sf mtime (w3 c)))))
                 = insert sf (set (listdir (primary w)))"
    using s3 l3 nt by (simp_all add: set_mtime_staging set_mtime_listing)
  have fs: "\<And>x y. x = (w', y) \<Longrightarrow> w' = fst x" by simp
  have u1: "\<And>c. set (listdir (AList.update sf (File c (clock e)) d)) \<subseteq> insert sf (set (listdir d))"
    by (simp add: listdir_update)
  note unfold = download_def file_fault_at_def stream_fault_def st Let_def
  note ws = w3_def w2_def w1_def
  note ls = l1 [unfolded ws] l2 [unfolded ws] l3 [unfolded ws] l4 [unfolded ws]
  note ss = s1 [unfolded ws] s2 [unfolded ws] s3 [unfolded ws] s4 [unfolded ws]
  show "set (listdir (primary w)) \<subseteq> set (listdir (primary w'))"
    using run
    by (auto simp add: unfold ls split: option.splits prod.splits if_splits file_stage.splits
             dest!: fs)
  show "\<exists>d'. staging w' = Some d' \<and> set (listdir d') \<subseteq> insert sf (set (listdir d))"
    using run d3 u1 st
    by (auto simp add: download_def file_fault_at_def stream_fault_def Let_def ss listdir_update
             split: option.splits prod.splits if_splits file_stage.splits dest!: fs)
  show "sf \<in> set (listdir (primary w'))"
    if "file_fault e i = None" "fetch e fl \<noteq> None"
    using run that by (auto simp add: unfold ls dest!: fs)
  show "r \<noteq> Some KeyboardInterrupt" if "\<forall>s. file_fault e i \<noteq> Some (s, Interrupted)"
    using run that set_mtime_raises
    by (auto simp add: unfold exn_of_def
             split: option.splits prod.splits if_splits file_stage.splits kind.splits
             dest!: arg_cong [where f = snd])
qed

lemma download_file_effect:
  assumes st: "staging w = Some d"
    and run: "download_file py cfg e i fl mtime w = (w', r)"
  shows "set (listdir (primary w)) \<subseteq> set (listdir (primary w'))
    \<and> (\<exists>d'. staging w' = Some d'
              \<and> set (listdir d') \<subseteq> insert (sanitize_filename py fl) (set (listdir d)))
    \<and> (file_fault e i = None \<longrightarrow> fetch e fl \<noteq> None \<longrightarrow>
         sanitize_filename py fl \<notin> set (listdir d) \<longrightarrow>
         sanitize_filename py fl \<notin> {[], ustr ''.'', ustr ''..''} \<longrightarrow>
           sanitize_filename py fl \<in> set (listdir (primary w')))
    \<and> ((\<forall>s. file_fault e i \<noteq> Some (s, Interrupted)) \<longrightarrow> r = None)"
proof -
  define sf where "sf = sanitize_filename py fl"
  show ?thesis
  proof (cases "path_exists d sf \<or> path_exists (primary w) sf")
    case True
    with run st have "w' = logging Info (Already_exists sf) w" "r = None"
      by (simp_all add: download_file_def sf_def Let_def)
    with st True show ?thesis
      by (auto simp add: prim sf_def path_exists_def)
  next
    case False
    then have fresh: "sf \<notin> set (listdir (primary w))" by (simp add: path_exists_def)
    obtain w1 r1 where d: "download e i fl sf mtime w = (w1, r1)" by (metis surj_pair)
    note eff = download_effect [OF st fresh d]
    from run st False d have
      w': "primary w' = primary w1" "staging w' = staging w1"
      and r: "r1 \<noteq> Some KeyboardInterrupt \<longrightarrow> r = None"
      by (auto simp add: download_file_def sf_def [symmetric] Let_def prim staging_def
               split: option.splits exn.splits)
    from eff w' r show ?thesis
      by (simp add: sf_def [symmetric])
  qed
qed

lemma download_loop_effect:
  assumes "\<forall>j s. file_fault e j \<noteq> Some (s, Interrupted)"
    and "staging w = Some d"
    and "download_loop py cfg e i nf w = (w', r)"
  shows "r = None \<and> set (listdir (primary w)) \<subseteq> set (listdir (primary w'))
     \<and> (\<forall>k < length nf.
           file_fault e (i + k) = None \<longrightarrow> fetch e (fst (nf ! k)) \<noteq> None \<longrightarrow>
           sanitize_filename py (fst (nf ! k)) \<notin> set (listdir d) \<longrightarrow>
           sanitize_filename py (fst (nf ! k)) \<notin> {[], ustr ''.'', ustr ''..''} \<longrightarrow>
           (\<forall>j < k. sanitize_filename py (fst (nf ! j)) \<noteq> sanitize_filename py (fst (nf ! k))) \<longrightarrow>
             sanitize_filename py (fst (nf ! k)) \<in> set (listdir (primary w')))"
  using assms
proof (induction nf arbitrary: i w d)
  case Nil
  then show ?case by simp
next
  case (Cons a nf)
  obtain fl mtime where a: "a = (fl, mtime)" by (cases a)
  obtain w1 r1 where d1: "download_file py cfg e i fl mtime w = (w1, r1)" by (metis surj_pair)
  have eff: "set (listdir (primary w)) \<subseteq> set (listdir (primary w1))"
    "\<exists>d'. staging w1 = Some d'
              \<and> set (listdir d') \<subseteq> insert (sanitize_filename py fl) (set (listdir d))"
    "file_fault e i = None \<longrightarrow> fetch e fl \<noteq> None \<longrightarrow>
         sanitize_filename py fl \<notin> set (listdir d) \<longrightarrow>
         sanitize_filename py fl \<notin> {[], ustr ''.'', ustr ''..''} \<longrightarrow>
           sanitize_filename py fl \<in> set (listdir (primary w1))"
    "(\<forall>s. file_fault e i \<noteq> Some (s, Interrupted)) \<longrightarrow> r1 = None"
    using download_file_effect [OF Cons.prems(2) d1] by blast+
  from eff(4) Cons.prems(1) have r1: "r1 = None" by blast
  from eff(2) obtain d' where d': "staging w1 = Some d'"
    "set (listdir d') \<subseteq> insert (sanitize_filename py fl) (set (listdir d))" by blast
  from Cons.prems(3) a d1 r1 have rest: "download_loop py cfg e (Suc i) nf w1 = (w', r)" by simp
  note ih = Cons.IH [OF Cons.prems(1) d'(1) rest]
  from ih have mono: "set (listdir (primary w1)) \<subseteq> set (listdir (primary w'))" by blast
  have "sanitize_filename py (fst ((a # nf) ! k)) \<in> set (listdir (primary w'))"
    if k: "k < length (a # nf)"
      and f: "file_fault e (i + k) = None" "fetch e (fst ((a # nf) ! k)) \<noteq> None"
      and n: "sanitize_filename py (fst ((a # nf) ! k)) \<notin> set (listdir d)"
         "sanitize_filename py (fst ((a # nf) ! k)) \<notin> {[], ustr ''.'', ustr ''..''}"
      and u: "\<forall>j < k. sanitize_filename py (fst ((a # nf) ! j))
                       \<noteq> sanitize_filename py (fst ((a # nf) ! k))"
    for k
  proof (cases k)
    case 0
    with f n a eff(3) have "sanitize_filename py fl \<in> set (listdir (primary w1))" by simp
    with mono 0 a show ?thesis by auto
  next
    case (Suc k')
    from u Suc a have ne: "sanitize_filename py fl \<noteq> sanitize_filename py (fst (nf ! k'))"
      by (auto dest: spec [of _ 0])
    with n Suc d'(2) have "sanitize_filename py (fst (nf ! k')) \<notin> set (listdir d')" by auto
    moreover from u Suc have
      "\<forall>j < k'. sanitize_filename py (fst (nf ! j)) \<noteq> sanitize_filename py (fst (nf ! k'))"
      by (auto dest: spec [of _ "Suc _"])
    ultimately show ?thesis using ih k f n Suc by simp
  qed
  with ih eff(1) show ?case by (meson subset_trans)
qed

text \<open>
  C5: when the failures of the per-file steps are exceptions (not interruptions from the
  keyboard), the loop over the new files runs to its end whatever fails. Every file on
  which no step is made to fail is in the primary root afterwards under its sanitized
  name, provided that the server holds the file, that the sanitized name is a file name
  (not empty, \<open>.\<close> or \<open>..\<close>), and that no file of the same sanitized name is in the way in
  the staging directory, left there by an earlier run or by an earlier file of this one.
  With five new files and a forced error on the third, the other four are in the primary
  root and the pull returns True.
\<close>

theorem download_loop_continues:
  assumes "\<forall>j s. file_fault e j \<noteq> Some (s, Interrupted)"
    and "staging w = Some d"
  shows "snd (download_loop py cfg e 0 new_files w) = None
     \<and> (\<forall>k < length new_files.
           file_fault e k = None \<longrightarrow> fetch e (fst (new_files ! k)) \<noteq> None \<longrightarrow>
           sanitize_filename py (fst (new_files ! k)) \<notin> set (listdir d) \<longrightarrow>
           sanitize_filename py (fst (new_files ! k)) \<notin> {[], ustr ''.'', ustr ''..''} \<longrightarrow>
           (\<forall>j < k. sanitize_filename py (fst (new_files ! j))
                      \<noteq> sanitize_filename py (fst (new_files ! k))) \<longrightarrow>
             sanitize_filename py (fst (new_files ! k))
               \<in> set (listdir (primary (fst (download_loop py cfg e 0 new_files w)))))"
proof -
  obtain w' r where l: "download_loop py cfg e 0 new_files w = (w', r)" by (metis surj_pair)
  from download_loop_effect [OF assms l] l show ?thesis by simp
qed

theorem download_loop_continues_witness:
  "(\<forall>j s. file_fault session_C j \<noteq> Some (s, Interrupted))
   \<and> staging staged_store = Some []
   \<and> snd (download_loop latin1 office session_C 0 new_files_C staged_store) = None
   \<and> ustr ''thu.tar''
        \<in> set (listdir (primary (fst (download_loop latin1 office session_C 0 new_files_C staged_store))))
   \<and> listdir (primary (fst (download_loop latin1 office session_C 0 new_files_C staged_store)))
        = [temp, ustr ''mon.tar'', ustr ''tue.tar'', ustr ''thu.tar'', ustr ''fri.tar'']
   \<and> snd (perform_backup latin1 office session_C empty_store) = Returns_True
   \<and> listdir (primary (fst (perform_backup latin1 office session_C empty_store)))
        = [ustr ''mon.tar'', ustr ''tue.tar'', ustr ''thu.tar'', ustr ''fri.tar'']"
proof -
  have h1: "\<forall>j s. file_fault session_C j \<noteq> Some (s, Interrupted)"
    by (simp add: session_C_def calm_session_def)
  have h2: "staging staged_store = Some []"
    by (simp add: staging_def staged_store_def)
  note t = download_loop_continues [OF h1 h2, of latin1 office new_files_C]
  from t have a: "snd (download_loop latin1 office session_C 0 new_files_C staged_store) = None"
    by blast
  have n: "sanitize_filename latin1 (fst (new_files_C ! 3)) = ustr ''thu.tar''"
    "\<forall>j < 3. sanitize_filename latin1 (fst (new_files_C ! j)) \<noteq> ustr ''thu.tar''"
    by (simp_all add: new_files_C_def sanitize_filename_map isalnum_def ustr_def cp_def
          less_Suc_eq numeral_3_eq_3)
  have k: "(3::nat) < length new_files_C" "file_fault session_C 3 = None"
    "fetch session_C (fst (new_files_C ! 3)) \<noteq> None"
    "ustr ''thu.tar'' \<notin> set (listdir [])"
    "ustr ''thu.tar'' \<notin> {[], ustr ''.'', ustr ''..''}"
    by (simp_all add: new_files_C_def session_C_def calm_session_def listdir_def ustr_def cp_def)
  from t k n have th: "ustr ''thu.tar''
        \<in> set (listdir (primary (fst (download_loop latin1 office session_C 0 new_files_C staged_store))))"
    by (metis (no_types, lifting))
  have b: "listdir (primary (fst (download_loop latin1 office session_C 0 new_files_C staged_store)))
        = [temp, ustr ''mon.tar'', ustr ''tue.tar'', ustr ''thu.tar'', ustr ''fri.tar'']"
    by (simp add: run_defs session_C_def new_files_C_def staged_store_def
          sanitize_filename_map isalnum_def)
  have c: "snd (perform_backup latin1 office session_C empty_store) = Returns_True"
    "listdir (primary (fst (perform_backup latin1 office session_C empty_store)))
        = [ustr ''mon.tar'', ustr ''tue.tar'', ustr ''thu.tar'', ustr ''fri.tar'']"
    using listing_C_new [unfolded new_files_C_def ustr_def cp_def, simplified]
    by (simp_all add: run_defs session_C_def sanitize_filename_map isalnum_def)
  from h1 h2 a th b c show ?thesis by blast
qed

section \<open>What a pull reports\<close>

lemma routine_members:
  assumes "list_all routine es"
  shows "Notify Backup_Script_Success Backup_complete \<notin> set es"
    and "Notify Backup_Script No_new_files \<notin> set es"
    and "Notify Backup_Script_Interrupted Interrupted_by_user \<notin> set es"
  using assms by (auto simp add: list_all_iff)

lemma calm_members:
  assumes "list_all calm es"
  shows "Notify Backup_Script_Success Backup_complete \<notin> set es"
    and "Notify Backup_Script No_new_files \<notin> set es"
    and "Notify Backup_Script_Interrupted Interrupted_by_user \<notin> set es"
  using assms by (auto simp add: list_all_iff calm_def)

lemma run_shape_report:
  assumes "run_shape cfg es out"
  shows "(out = Returns_True) = (Notify Backup_Script_Success Backup_complete \<in> set es)"
    and "(out = Returns_None) = (Notify Backup_Script No_new_files \<in> set es)"
    and "Notify Backup_Script_Interrupted Interrupted_by_user \<in> set es \<Longrightarrow>
           out = Returns_False
           \<and> (\<exists>before. es = before @ [Log Info Interrupted_by_user,
                 Notify Backup_Script_Interrupted Interrupted_by_user,
                 Flag False, Log Info Sftp_closed, Log Info Ssh_closed])"
proof -
  from assms consider
    (early) "list_all calm es" "out = Returns_False \<or> (\<exists>x. out = Raises x)"
  | (idle) pre where
      "es = pre @ [Log Info No_new_files, Notify Backup_Script No_new_files, Log Info Ssh_closed]"
      "list_all calm pre" "out = Returns_None"
  | (ran) pre mid en where
      "es = pre @ Flag True # mid @ ending_events cfg en
                   @ [Flag False, Log Info Sftp_closed, Log Info Ssh_closed]"
      "list_all calm pre" "list_all routine mid" "out = ending_outcome en"
    unfolding run_shape_def by blast
  then have "(out = Returns_True) = (Notify Backup_Script_Success Backup_complete \<in> set es)
    \<and> (out = Returns_None) = (Notify Backup_Script No_new_files \<in> set es)
    \<and> (Notify Backup_Script_Interrupted Interrupted_by_user \<in> set es \<longrightarrow>
           out = Returns_False
           \<and> (\<exists>before. es = before @ [Log Info Interrupted_by_user,
                 Notify Backup_Script_Interrupted Interrupted_by_user,
                 Flag False, Log Info Sftp_closed, Log Info Ssh_closed]))"
  proof cases
    case early
    with calm_members [OF early(1)] show ?thesis by auto
  next
    case idle
    with calm_members [OF idle(2)] show ?thesis by auto
  next
    case ran
    note c = calm_members [OF ran(2)] and r = routine_members [OF ran(3)]
    show ?thesis
    proof (cases en)
      case Completed
      with ran c r show ?thesis by auto
    next
      case Stopped_by_user
      with ran have "es = (pre @ Flag True # mid) @ [Log Info Interrupted_by_user,
                 Notify Backup_Script_Interrupted Interrupted_by_user,
                 Flag False, Log Info Sftp_closed, Log Info Ssh_closed]" by simp
      then have "\<exists>before. es = before @ [Log Info Interrupted_by_user,
                 Notify Backup_Script_Interrupted Interrupted_by_user,
                 Flag False, Log Info Sftp_closed, Log Info Ssh_closed]" by blast
      with Stopped_by_user ran c r show ?thesis by auto
    next
      case Stopped_by_error
      with ran c r show ?thesis by auto
    qed
  qed
  then show "(out = Returns_True) = (Notify Backup_Script_Success Backup_complete \<in> set es)"
    and "(out = Returns_None) = (Notify Backup_Script No_new_files \<in> set es)"
    and "Notify Backup_Script_Interrupted Interrupted_by_user \<in> set es \<Longrightarrow>
           out = Returns_False
           \<and> (\<exists>before. es = before @ [Log Info Interrupted_by_user,
                 Notify Backup_Script_Interrupted Interrupted_by_user,
                 Flag False, Log Info Sftp_closed, Log Info Ssh_closed])"
    by blast+
qed

lemma reports_by_notification:
  assumes "perform_backup py cfg e w = (w', out)"
  shows "(out = Returns_True) = (Notify Backup_Script_Success Backup_complete \<in> set (emitted w w'))
     \<and> (out = Returns_None) = (Notify Backup_Script No_new_files \<in> set (emitted w w'))
     \<and> (Notify Backup_Script_Interrupted Interrupted_by_user \<in> set (emitted w w') \<longrightarrow>
           out = Returns_False
           \<and> (\<exists>before. emitted w w' = before @ [Log Info Interrupted_by_user,
                 Notify Backup_Script_Interrupted Interrupted_by_user,
                 Flag False, Log Info Sftp_closed, Log Info Ssh_closed]))"
  using run_shape_report [of cfg "emitted w w'" out] perform_backup_shape [OF assms]
  by blast

lemma perform_backup_interrupted_exit:
  assumes "transfer_start py cfg e w = Some (nf, w3)"
  shows "download_loop py cfg e 0 nf w3 = (w4, Some KeyboardInterrupt) \<Longrightarrow>
           perform_backup py cfg e w = (interrupted_exit w4, Returns_False)"
    and "download_loop py cfg e 0 nf w3 = (w4, None) \<Longrightarrow>
         cleanup_temp_directory e w4 = (w5, Some KeyboardInterrupt) \<Longrightarrow>
           perform_backup py cfg e w = (interrupted_exit w5, Returns_False)"
    and "download_loop py cfg e 0 nf w3 = (w4, None) \<Longrightarrow>
         cleanup_temp_directory e w4 = (w5, None) \<Longrightarrow>
         synchronize_directories e (secondary_backup_paths cfg) w5 = (w6, Some KeyboardInterrupt) \<Longrightarrow>
           perform_backup py cfg e w = (interrupted_exit w6, Returns_False)"
  using assms
  by (auto simp add: transfer_start_def perform_backup_def pull_def transfer_def
        handle_transfer_exception_def interrupted_exit_def
        split: prod.splits bool.splits sum.splits if_splits option.splits)

lemma transfer_start_journal:
  assumes "transfer_start py cfg e w = Some (nf, w3)"
  shows "\<exists>es. journal w3 = journal w @ es"
proof -
  define w0 where "w0 = logging Info Starting_backup w"
  define w1 where "w1 = fst (connect_ssh cfg e w0)"
  define w2 where "w2 = fst (prepare py cfg e w1)"
  define w3' where "w3' = fst (make_temp e w2)"
  have "grows calm w w0" unfolding w0_def by (auto intro!: grows_step grows_refl simp add: calm_def)
  then have "grows calm w w1" unfolding w1_def by (rule connect_ssh_grows)
  then have "grows calm w w2" unfolding w2_def by (rule prepare_grows)
  then have "grows calm w w3'" unfolding w3'_def by (rule make_temp_grows)
  then obtain es where "journal w3' = journal w @ es" by (auto simp add: grows_def)
  moreover from assms have "w3 = set_flag True w3'"
    by (auto simp add: transfer_start_def w3'_def w2_def w1_def w0_def
          split: prod.splits bool.splits sum.splits if_splits option.splits)
  ultimately show ?thesis by (simp add: prim)
qed

lemma journal_grows: "grows P w w' \<Longrightarrow> \<exists>es. journal w' = journal w @ es"
  by (auto simp add: grows_def)

lemma interrupted_exit_emitted:
  assumes "journal s = journal w @ es"
  shows "Notify Backup_Script_Interrupted Interrupted_by_user \<in> set (emitted w (interrupted_exit s))"
  using assms by (simp add: emitted_def interrupted_exit_def prim)

lemma download_not_interrupted:
  assumes "\<forall>s. file_fault e i \<noteq> Some (s, Interrupted)"
  shows "snd (download e i fl sf mtime w) \<noteq> Some KeyboardInterrupt"
  using assms set_mtime_raises
  by (auto simp add: download_def file_fault_at_def stream_fault_def Let_def exn_of_def
        split: option.splits prod.splits if_splits file_stage.splits kind.splits)

lemma download_file_not_interrupted:
  assumes "\<forall>s. file_fault e i \<noteq> Some (s, Interrupted)"
  shows "snd (download_file py cfg e i fl mtime w) = None"
proof -
  obtain w1 r1 where d: "download e i fl (sanitize_filename py fl) mtime w = (w1, r1)"
    by (metis surj_pair)
  with download_not_interrupted [OF assms, of fl "sanitize_filename py fl" mtime w]
  have "r1 \<noteq> Some KeyboardInterrupt" by simp
  with d show ?thesis
    by (auto simp add: download_file_def Let_def split: option.splits exn.splits)
qed

lemma download_loop_not_interrupted:
  "(\<And>j. i \<le> j \<Longrightarrow> j < i + length nf \<Longrightarrow> \<forall>s. file_fault e j \<noteq> Some (s, Interrupted)) \<Longrightarrow>
   snd (download_loop py cfg e i nf w) = None"
proof (induction nf arbitrary: i w)
  case Nil
  then show ?case by simp
next
  case (Cons a nf)
  obtain fl mtime where a: "a = (fl, mtime)" by (cases a)
  obtain w1 r1 where d: "download_file py cfg e i fl mtime w = (w1, r1)" by (metis surj_pair)
  have "\<forall>s. file_fault e i \<noteq> Some (s, Interrupted)" using Cons.prems [of i] by simp
  from download_file_not_interrupted [OF this, of py cfg fl mtime w] d have r1: "r1 = None" by simp
  have "snd (download_loop py cfg e (Suc i) nf w1) = None"
    by (rule Cons.IH) (use Cons.prems in simp)
  with a d r1 show ?case by simp
qed

lemma download_loop_append:
  "download_loop py cfg e i (xs @ ys) w =
     (case download_loop py cfg e i xs w of
        (w1, None) \<Rightarrow> download_loop py cfg e (i + length xs) ys w1
      | (w1, Some x) \<Rightarrow> (w1, Some x))"
proof (induction xs arbitrary: i w)
  case Nil
  then show ?case by simp
next
  case (Cons a xs)
  obtain fl mtime where a: "a = (fl, mtime)" by (cases a)
  show ?case
    by (simp add: a Cons.IH split: prod.split option.split)
qed

lemma file_interrupted_raises:
  assumes "file_interrupted py e i fl w"
  shows "snd (download_file py cfg e i fl mtime w) = Some KeyboardInterrupt"
  using assms
  by (auto simp add: file_interrupted_def download_file_def download_def file_fault_at_def
        stream_fault_def Let_def exn_of_def
        split: option.splits prod.splits if_splits file_stage.splits kind.splits)

lemma download_loop_interrupted:
  assumes k: "k < length nf"
    and b: "\<forall>j<k. \<forall>s. file_fault e j \<noteq> Some (s, Interrupted)"
    and f: "file_interrupted py e k (fst (nf ! k)) (fst (download_loop py cfg e 0 (take k nf) w))"
  shows "download_loop py cfg e 0 nf w
           = (fst (download_loop py cfg e 0 (take (Suc k) nf) w), Some KeyboardInterrupt)"
proof -
  obtain wk rk where t: "download_loop py cfg e 0 (take k nf) w = (wk, rk)" by (metis surj_pair)
  have "snd (download_loop py cfg e 0 (take k nf) w) = None"
    by (rule download_loop_not_interrupted) (use b k in simp)
  with t have rk: "rk = None" by simp
  obtain fl mtime where n: "nf ! k = (fl, mtime)" by (cases "nf ! k")
  obtain w1 r1 where d: "download_file py cfg e k fl mtime wk = (w1, r1)" by (metis surj_pair)
  from file_interrupted_raises [of py e k fl wk cfg mtime] f t n d
  have r1: "r1 = Some KeyboardInterrupt" by simp
  have lk: "length (take k nf) = k" using k by simp
  have "nf = take k nf @ (fl, mtime) # drop (Suc k) nf"
    using id_take_nth_drop [OF k] n by simp
  then have "download_loop py cfg e 0 nf w
      = download_loop py cfg e 0 (take k nf @ (fl, mtime) # drop (Suc k) nf) w" by simp
  also have "\<dots> = (w1, Some KeyboardInterrupt)"
    by (simp only: download_loop_append t rk lk) (simp add: d r1)
  finally have full: "download_loop py cfg e 0 nf w = (w1, Some KeyboardInterrupt)" .
  have "take (Suc k) nf = take k nf @ [(fl, mtime)]"
    using take_Suc_conv_app_nth [OF k] n by simp
  then have "download_loop py cfg e 0 (take (Suc k) nf) w
      = download_loop py cfg e 0 (take k nf @ [(fl, mtime)]) w" by simp
  also have "\<dots> = (w1, Some KeyboardInterrupt)"
    by (simp only: download_loop_append t rk lk) (simp add: d r1)
  finally show ?thesis using full by simp
qed

lemma remove_all_interrupted:
  assumes "cleanup_fault e = Some (stage, Interrupted)"
  shows "comes_to stage d \<Longrightarrow>
         snd (remove_all e d w) = (if stage = At_rmdir then None else Some KeyboardInterrupt)"
proof (induction d arbitrary: w)
  case Nil
  then show ?case by simp
next
  case (Cons a d)
  obtain n ent where a: "a = (n, ent)" by (cases a)
  show ?case
  proof (cases "stage = At_remove n")
    case True
    with assms show ?thesis by (simp add: a cleanup_fault_at_def exn_of_def)
  next
    case False
    with Cons.prems a obtain c m where ent: "ent = File c m" and ct: "comes_to stage d"
      by (cases ent) auto
    from Cons.IH [OF ct] False assms show ?thesis
      by (simp add: a ent cleanup_fault_at_def)
  qed
qed

lemma cleanup_interrupted_raises:
  assumes "cleanup_interrupted e w"
  shows "snd (cleanup_temp_directory e w) = Some KeyboardInterrupt"
proof -
  from assms obtain d stage where st: "staging w = Some d"
    and cf: "cleanup_fault e = Some (stage, Interrupted)" and ct: "comes_to stage d"
    by (auto simp add: cleanup_interrupted_def split: option.splits prod.splits kind.splits)
  obtain w1 r1 where r: "remove_all e d (emit (Fs (ListDir Staging)) w) = (w1, r1)"
    by (metis surj_pair)
  from remove_all_interrupted [OF cf ct, of "emit (Fs (ListDir Staging)) w"] r
  have r1: "r1 = (if stage = At_rmdir then None else Some KeyboardInterrupt)" by simp
  show ?thesis
    using st r r1 cf
    by (simp add: cleanup_temp_directory_def cleanup_fault_at_def exn_of_def)
qed

lemma write_root_frame: "q \<noteq> p \<Longrightarrow> root (write_root p n ent w) q = root w q"
  by (simp add: write_root_def prim split: option.split)

lemma copy_file_frame: "q \<noteq> p \<Longrightarrow> root (fst (copy_file e p f w)) q = root w q"
  by (simp add: copy_file_def write_root_frame
        split: option.split entry.split copy_stage.split prod.split)

lemma sync_file_frame: "q \<noteq> p \<Longrightarrow> root (fst (sync_file e p f w)) q = root w q"
proof -
  assume q: "q \<noteq> p"
  obtain w1 r where c: "copy_file e p f w = (w1, r)" by (metis surj_pair)
  from copy_file_frame [OF q, of e f w] c have "root w1 q = root w q" by simp
  then show ?thesis
    by (auto simp add: sync_file_def c prim split: option.split exn.split)
qed

lemma sync_files_frame: "q \<noteq> p \<Longrightarrow> root (fst (sync_files e p fs w)) q = root w q"
proof (induction fs arbitrary: w)
  case Nil
  show ?case by simp
next
  case (Cons f fs)
  obtain w1 r where c: "sync_file e p f w = (w1, r)" by (metis surj_pair)
  from sync_file_frame [OF Cons.prems, of e f w] c have a: "root w1 q = root w q" by simp
  from Cons.IH [OF Cons.prems, of w1] a show ?case
    by (simp add: c split: option.split)
qed

lemma makedirs_root_frame: "q \<noteq> p \<Longrightarrow> root (makedirs_root p w) q = root w q"
  by (simp add: makedirs_root_def prim split: option.split)

lemma makedirs_root_listing: "listdir_root (makedirs_root p w) q = listdir_root w q"
  by (simp add: listdir_root_def makedirs_root_def prim listdir_def split: option.split)

lemma map_of_file:
  assumes "\<forall>x \<in> set (primary w). \<exists>c m. snd x = File c m"
    and "f \<in> set (listdir (primary w))"
  shows "\<exists>c m. map_of (primary w) f = Some (File c m)"
proof -
  from assms(2) have "map_of (primary w) f \<noteq> None"
    by (simp add: listdir_def map_of_eq_None_iff)
  then obtain ent where m: "map_of (primary w) f = Some ent" by blast
  then have "(f, ent) \<in> set (primary w)" by (rule map_of_SomeD)
  with assms(1) obtain c m where "ent = File c m" by fastforce
  with m show ?thesis by simp
qed

lemma sync_file_outcome:
  assumes "map_of (primary w) f = Some (File c m)" and "root w p = Some d"
    and "\<forall>st. copy_fault e p f \<noteq> Some (st, Fails)"
  shows "snd (sync_file e p f w)
           = (if copy_fault e p f = None then None else Some KeyboardInterrupt)"
  using assms
  by (auto simp add: sync_file_def copy_file_def exn_of_def
        split: option.splits prod.splits copy_stage.splits kind.splits)

lemma sync_files_outcome:
  assumes "\<forall>x \<in> set (primary w). \<exists>c m. snd x = File c m"
    and "root w p = Some d"
    and "set fs \<subseteq> set (listdir (primary w))"
    and "\<forall>f \<in> set fs. \<forall>st. copy_fault e p f \<noteq> Some (st, Fails)"
  shows "snd (sync_files e p fs w)
           = (if \<exists>f \<in> set fs. copy_fault e p f \<noteq> None then Some KeyboardInterrupt else None)"
  using assms
proof (induction fs arbitrary: w d)
  case Nil
  show ?case by simp
next
  case (Cons f fs)
  obtain w1 r where c: "sync_file e p f w = (w1, r)" by (metis surj_pair)
  from Cons.prems(1,3) obtain cn m where mf: "map_of (primary w) f = Some (File cn m)"
    using map_of_file [of w f] by auto
  from Cons.prems(4) have nf: "\<forall>st. copy_fault e p f \<noteq> Some (st, Fails)" by simp
  from sync_file_outcome [OF mf Cons.prems(2) nf] c
  have r: "r = (if copy_fault e p f = None then None else Some KeyboardInterrupt)" by simp
  show ?case
  proof (cases "copy_fault e p f = None")
    case False
    with r c show ?thesis by auto
  next
    case True
    with r have rn: "r = None" by simp
    have oa: "only_adds w w1" using sync_file_only_adds [of w e p f] c by simp
    then have p1: "primary w1 = primary w" by (simp add: only_adds_def)
    from oa Cons.prems(2) obtain d1 where d1: "root w1 p = Some d1"
      unfolding only_adds_def by blast
    have "snd (sync_files e p fs w1)
           = (if \<exists>f \<in> set fs. copy_fault e p f \<noteq> None then Some KeyboardInterrupt else None)"
      by (rule Cons.IH [OF _ d1]) (use Cons.prems p1 in auto)
    with True c rn show ?thesis by simp
  qed
qed

lemma sync_roots_interrupted:
  assumes "\<forall>x \<in> set (primary w). \<exists>c m. snd x = File c m"
    and "set pf \<subseteq> set (listdir (primary w))"
    and "\<forall>p \<in> set sps. \<forall>f \<in> set pf. \<forall>st. copy_fault e p f \<noteq> Some (st, Fails)"
    and "\<exists>p \<in> set sps. \<exists>f \<in> set pf. f \<notin> set (listdir_root w p) \<and> copy_fault e p f \<noteq> None"
  shows "snd (sync_roots e pf sps w) = Some KeyboardInterrupt"
  using assms
proof (induction sps arbitrary: w)
  case Nil
  then show ?case by simp
next
  case (Cons sp sps)
  define w1 where "w1 = emit (Fs (ListDir (Root sp))) (makedirs_root sp w)"
  define todo where "todo = set_minus pf (listdir_root w1 sp)"
  obtain w2 r where c: "sync_files e sp todo w1 = (w2, r)" by (metis surj_pair)
  have l1: "\<And>q. listdir_root w1 q = listdir_root w q"
    by (simp add: w1_def listdir_root_def prim makedirs_root_listing [unfolded listdir_root_def])
  have p1: "primary w1 = primary w"
    using makedirs_root_only_adds [of w sp] by (simp add: w1_def prim only_adds_def)
  obtain d1 where d1: "root w1 sp = Some d1"
    using makedirs_root_exists [of sp w] by (auto simp add: w1_def prim)
  have td: "set todo = {f \<in> set pf. f \<notin> set (listdir_root w sp)}"
    by (auto simp add: todo_def set_minus_def l1)
  have r: "r = (if \<exists>f \<in> set todo. copy_fault e sp f \<noteq> None then Some KeyboardInterrupt else None)"
  proof -
    have s: "set todo \<subseteq> set (listdir (primary w1))" using td Cons.prems(2) p1 by auto
    have n: "\<forall>f \<in> set todo. \<forall>st. copy_fault e sp f \<noteq> Some (st, Fails)"
      using td Cons.prems(3) by auto
    have a1: "\<forall>x \<in> set (primary w1). \<exists>c m. snd x = File c m"
      using Cons.prems(1) p1 by simp
    from sync_files_outcome [OF a1 d1 s n] c show ?thesis by simp
  qed
  show ?case
  proof (cases "\<exists>f \<in> set todo. copy_fault e sp f \<noteq> None")
    case True
    with r c show ?thesis
      by (simp add: Let_def w1_def [symmetric] todo_def [symmetric])
  next
    case False
    with r have rn: "r = None" by simp
    have oa: "only_adds w1 w2" using sync_files_only_adds [of w1 e sp todo] c by simp
    then have p2: "primary w2 = primary w" using p1 by (simp add: only_adds_def)
    from Cons.prems(4) obtain p f where pf: "p \<in> set (sp # sps)" "f \<in> set pf"
      "f \<notin> set (listdir_root w p)" "copy_fault e p f \<noteq> None" by blast
    from pf False td have ne: "p \<noteq> sp" by auto
    with pf have ps: "p \<in> set sps" by simp
    have "root w2 p = root w1 p" using sync_files_frame [OF ne, of e todo w1] c by simp
    then have "listdir_root w2 p = listdir_root w p"
      using l1 [of p] by (simp add: listdir_root_def)
    with pf have "f \<notin> set (listdir_root w2 p)" by simp
    with pf(2,4) ps have ex: "\<exists>p \<in> set sps. \<exists>f \<in> set pf.
        f \<notin> set (listdir_root w2 p) \<and> copy_fault e p f \<noteq> None" by blast
    have "snd (sync_roots e pf sps w2) = Some KeyboardInterrupt"
      by (rule Cons.IH [OF _ _ _ ex]) (use Cons.prems p2 in auto)
    with c rn show ?thesis
      by (simp add: Let_def w1_def [symmetric] todo_def [symmetric])
  qed
qed

lemma mirror_interrupted_raises:
  assumes "mirror_interrupted e sps w"
  shows "snd (synchronize_directories e sps w) = Some KeyboardInterrupt"
proof -
  define w1 where "w1 = emit (Fs (ListDir Primary)) w"
  have p1: "primary w1 = primary w" by (simp add: w1_def prim)
  have l1: "\<And>q. listdir_root w1 q = listdir_root w q"
    by (simp add: w1_def listdir_root_def prim)
  from assms have a0:
    "\<forall>x \<in> set (primary w). case snd x of File c m \<Rightarrow> True | Folder d \<Rightarrow> False"
    by (simp add: mirror_interrupted_def list_all_iff)
  have a: "\<forall>x \<in> set (primary w1). \<exists>c m. snd x = File c m"
  proof
    fix x
    assume "x \<in> set (primary w1)"
    with a0 p1 have "case snd x of File c m \<Rightarrow> True | Folder d \<Rightarrow> False" by simp
    then show "\<exists>c m. snd x = File c m" by (cases "snd x") simp_all
  qed
  from assms have b0: "\<forall>p \<in> set sps. \<forall>f \<in> set (listdir (primary w)).
      (case copy_fault e p f of Some (stage, Fails) \<Rightarrow> False | _ \<Rightarrow> True)"
    by (simp add: mirror_interrupted_def list_all_iff)
  have b: "\<forall>p \<in> set sps. \<forall>f \<in> set (remdups (listdir (primary w1))).
      \<forall>st. copy_fault e p f \<noteq> Some (st, Fails)"
  proof (intro ballI allI)
    fix p f st
    assume "p \<in> set sps" "f \<in> set (remdups (listdir (primary w1)))"
    with b0 p1 have "case copy_fault e p f of Some (stage, Fails) \<Rightarrow> False | _ \<Rightarrow> True"
      by simp
    then show "copy_fault e p f \<noteq> Some (st, Fails)" by auto
  qed
  from assms have c0: "\<exists>p \<in> set sps. \<exists>f \<in> set (listdir (primary w)).
      f \<notin> set (listdir_root w p) \<and> copy_fault e p f \<noteq> None"
    by (simp add: mirror_interrupted_def list_ex_iff)
  then have c: "\<exists>p \<in> set sps. \<exists>f \<in> set (remdups (listdir (primary w1))).
      f \<notin> set (listdir_root w1 p) \<and> copy_fault e p f \<noteq> None"
    by (simp add: p1 l1)
  have "snd (sync_roots e (remdups (listdir (primary w1))) sps w1) = Some KeyboardInterrupt"
    by (rule sync_roots_interrupted [OF a _ b c]) simp
  then show ?thesis by (simp add: synchronize_directories_def Let_def w1_def)
qed

lemma remove_all_not_interrupted:
  "\<forall>stage. cleanup_fault e \<noteq> Some (stage, Interrupted) \<Longrightarrow>
   snd (remove_all e d w) \<noteq> Some KeyboardInterrupt"
proof (induction d arbitrary: w)
  case Nil
  show ?case by simp
next
  case (Cons a d)
  obtain n ent where a: "a = (n, ent)" by (cases a)
  from Cons.prems have f: "cleanup_fault_at e (At_remove n) \<noteq> Some KeyboardInterrupt"
    by (auto simp add: cleanup_fault_at_def exn_of_def split: option.splits kind.splits)
  show ?case
    using f Cons.IH [OF Cons.prems]
    by (cases ent) (auto simp add: a split: option.splits)
qed

lemma cleanup_not_interrupted:
  assumes "\<forall>stage. cleanup_fault e \<noteq> Some (stage, Interrupted)"
  shows "snd (cleanup_temp_directory e w) = None"
proof (cases "staging w")
  case None
  then show ?thesis by (simp add: cleanup_temp_directory_def)
next
  case (Some d)
  obtain w1 r1 where r: "remove_all e d (emit (Fs (ListDir Staging)) w) = (w1, r1)"
    by (metis surj_pair)
  from remove_all_not_interrupted [OF assms, of d "emit (Fs (ListDir Staging)) w"] r
  have r1: "r1 \<noteq> Some KeyboardInterrupt" by simp
  from assms have f: "cleanup_fault_at e At_rmdir \<noteq> Some KeyboardInterrupt"
    by (auto simp add: cleanup_fault_at_def exn_of_def split: option.splits kind.splits)
  show ?thesis
    using Some r r1 f
    by (auto simp add: cleanup_temp_directory_def split: option.splits exn.splits)
qed

text \<open>
  C9 (as amended): \<open>perform_backup\<close> returns True exactly when it sends the notification
  "Backup Script Success", and None exactly when it sends "No new files". When a run
  that has come to its transfer phase is interrupted from the keyboard, in the steps of
  a new file, in the cleanup of the staging directory or in a copy of the mirror
  synchronisation, it returns False, the value a failed run returns too, and sends the
  notification "Backup Script Interrupted", which no other run sends; what it leaves is
  the store at the interruption with nothing done after it but that report, the lowering
  of the flag and the closing of the two channels. So the files after the interrupted
  one are not downloaded, and the cleanup and the mirror synchronisation that were still
  to come are not run.
\<close>

theorem perform_backup_reports:
  assumes "perform_backup py cfg e w = (w', out)"
  shows "(out = Returns_True) = (Notify Backup_Script_Success Backup_complete \<in> set (emitted w w'))
     \<and> (out = Returns_None) = (Notify Backup_Script No_new_files \<in> set (emitted w w'))
     \<and> (Notify Backup_Script_Interrupted Interrupted_by_user \<in> set (emitted w w') \<longrightarrow>
           out = Returns_False
           \<and> (\<exists>before. emitted w w' = before @ [Log Info Interrupted_by_user,
                 Notify Backup_Script_Interrupted Interrupted_by_user,
                 Flag False, Log Info Sftp_closed, Log Info Ssh_closed]))
     \<and> (transfer_start py cfg e w = Some (new_files, started)
        \<and> k < length new_files
        \<and> (\<forall>j<k. \<forall>s. file_fault e j \<noteq> Some (s, Interrupted))
        \<and> file_interrupted py e k (fst (new_files ! k))
             (fst (download_loop py cfg e 0 (take k new_files) started))
        \<longrightarrow> out = Returns_False
            \<and> Notify Backup_Script_Interrupted Interrupted_by_user \<in> set (emitted w w')
            \<and> w' = interrupted_exit (fst (download_loop py cfg e 0 (take (Suc k) new_files) started)))
     \<and> (transfer_start py cfg e w = Some (new_files, started)
        \<and> (\<forall>j s. file_fault e j \<noteq> Some (s, Interrupted))
        \<and> cleanup_interrupted e (fst (download_loop py cfg e 0 new_files started))
        \<longrightarrow> out = Returns_False
            \<and> Notify Backup_Script_Interrupted Interrupted_by_user \<in> set (emitted w w')
            \<and> w' = interrupted_exit
                     (fst (cleanup_temp_directory e (fst (download_loop py cfg e 0 new_files started)))))
     \<and> (transfer_start py cfg e w = Some (new_files, started)
        \<and> (\<forall>j s. file_fault e j \<noteq> Some (s, Interrupted))
        \<and> (\<forall>stage. cleanup_fault e \<noteq> Some (stage, Interrupted))
        \<and> mirror_interrupted e (secondary_backup_paths cfg)
             (fst (cleanup_temp_directory e (fst (download_loop py cfg e 0 new_files started))))
        \<longrightarrow> out = Returns_False
            \<and> Notify Backup_Script_Interrupted Interrupted_by_user \<in> set (emitted w w')
            \<and> w' = interrupted_exit
                     (fst (synchronize_directories e (secondary_backup_paths cfg)
                        (fst (cleanup_temp_directory e
                           (fst (download_loop py cfg e 0 new_files started)))))))"
proof -
  note abc = reports_by_notification [OF assms]
  have d: "out = Returns_False
      \<and> Notify Backup_Script_Interrupted Interrupted_by_user \<in> set (emitted w w')
      \<and> w' = interrupted_exit (fst (download_loop py cfg e 0 (take (Suc k) new_files) started))"
    if ts: "transfer_start py cfg e w = Some (new_files, started)"
      and k: "k < length new_files"
      and b: "\<forall>j<k. \<forall>s. file_fault e j \<noteq> Some (s, Interrupted)"
      and f: "file_interrupted py e k (fst (new_files ! k))
                (fst (download_loop py cfg e 0 (take k new_files) started))"
  proof -
    define s where "s = fst (download_loop py cfg e 0 (take (Suc k) new_files) started)"
    from download_loop_interrupted [OF k b f]
    have "download_loop py cfg e 0 new_files started = (s, Some KeyboardInterrupt)"
      by (simp add: s_def)
    from perform_backup_interrupted_exit(1) [OF ts this] assms
    have r: "w' = interrupted_exit s" "out = Returns_False" by simp_all
    from transfer_start_journal [OF ts] obtain es where e1: "journal started = journal w @ es" by blast
    from journal_grows [OF download_loop_grows [OF grows_refl]]
    obtain es' where "journal s = journal started @ es'" unfolding s_def by blast
    with e1 have "journal s = journal w @ es @ es'" by simp
    from interrupted_exit_emitted [OF this] r show ?thesis by (simp add: s_def)
  qed
  have dl: "download_loop py cfg e 0 new_files started
      = (fst (download_loop py cfg e 0 new_files started), None)"
    if "\<forall>j s. file_fault e j \<noteq> Some (s, Interrupted)"
    using download_loop_not_interrupted [of 0 new_files e py cfg started] that
    by (metis prod.collapse)
  have c: "out = Returns_False
      \<and> Notify Backup_Script_Interrupted Interrupted_by_user \<in> set (emitted w w')
      \<and> w' = interrupted_exit
               (fst (cleanup_temp_directory e (fst (download_loop py cfg e 0 new_files started))))"
    if ts: "transfer_start py cfg e w = Some (new_files, started)"
      and b: "\<forall>j s. file_fault e j \<noteq> Some (s, Interrupted)"
      and f: "cleanup_interrupted e (fst (download_loop py cfg e 0 new_files started))"
  proof -
    define w4 where "w4 = fst (download_loop py cfg e 0 new_files started)"
    define s where "s = fst (cleanup_temp_directory e w4)"
    have d4: "download_loop py cfg e 0 new_files started = (w4, None)" using dl [OF b] by (simp add: w4_def)
    from cleanup_interrupted_raises [OF f]
    have c5: "cleanup_temp_directory e w4 = (s, Some KeyboardInterrupt)"
      by (simp add: s_def w4_def) (metis prod.collapse)
    from perform_backup_interrupted_exit(2) [OF ts d4 c5] assms
    have r: "w' = interrupted_exit s" "out = Returns_False" by simp_all
    from transfer_start_journal [OF ts] obtain es where e1: "journal started = journal w @ es" by blast
    from journal_grows [OF download_loop_grows [OF grows_refl]]
    obtain es' where e2: "journal w4 = journal started @ es'" unfolding w4_def by blast
    from journal_grows [OF cleanup_temp_directory_grows [OF grows_refl]]
    obtain es'' where "journal s = journal w4 @ es''" unfolding s_def by blast
    with e1 e2 have "journal s = journal w @ es @ es' @ es''" by simp
    from interrupted_exit_emitted [OF this] r show ?thesis by (simp add: s_def w4_def)
  qed
  have m: "out = Returns_False
      \<and> Notify Backup_Script_Interrupted Interrupted_by_user \<in> set (emitted w w')
      \<and> w' = interrupted_exit
               (fst (synchronize_directories e (secondary_backup_paths cfg)
                  (fst (cleanup_temp_directory e
                     (fst (download_loop py cfg e 0 new_files started))))))"
    if ts: "transfer_start py cfg e w = Some (new_files, started)"
      and b: "\<forall>j s. file_fault e j \<noteq> Some (s, Interrupted)"
      and cn: "\<forall>stage. cleanup_fault e \<noteq> Some (stage, Interrupted)"
      and f: "mirror_interrupted e (secondary_backup_paths cfg)
                (fst (cleanup_temp_directory e (fst (download_loop py cfg e 0 new_files started))))"
  proof -
    define w4 where "w4 = fst (download_loop py cfg e 0 new_files started)"
    define w5 where "w5 = fst (cleanup_temp_directory e w4)"
    define s where "s = fst (synchronize_directories e (secondary_backup_paths cfg) w5)"
    have d4: "download_loop py cfg e 0 new_files started = (w4, None)" using dl [OF b] by (simp add: w4_def)
    have c5: "cleanup_temp_directory e w4 = (w5, None)"
      using cleanup_not_interrupted [OF cn, of w4] by (simp add: w5_def) (metis prod.collapse)
    from mirror_interrupted_raises [OF f]
    have s6: "synchronize_directories e (secondary_backup_paths cfg) w5 = (s, Some KeyboardInterrupt)"
      by (simp add: s_def w5_def w4_def) (metis prod.collapse)
    from perform_backup_interrupted_exit(3) [OF ts d4 c5 s6] assms
    have r: "w' = interrupted_exit s" "out = Returns_False" by simp_all
    from transfer_start_journal [OF ts] obtain es where e1: "journal started = journal w @ es" by blast
    from journal_grows [OF download_loop_grows [OF grows_refl]]
    obtain es' where e2: "journal w4 = journal started @ es'" unfolding w4_def by blast
    from journal_grows [OF cleanup_temp_directory_grows [OF grows_refl]]
    obtain es'' where e3: "journal w5 = journal w4 @ es''" unfolding w5_def by blast
    from journal_grows [OF synchronize_directories_grows [OF grows_refl]]
    obtain es''' where "journal s = journal w5 @ es'''" unfolding s_def by blast
    with e1 e2 e3 have "journal s = journal w @ es @ es' @ es'' @ es'''" by simp
    from interrupted_exit_emitted [OF this] r show ?thesis by (simp add: s_def w5_def w4_def)
  qed
  from abc d c m show ?thesis by blast
qed

theorem perform_backup_reports_witness:
  "transfer_start latin1 office session_interrupted empty_store = Some (new_files_A, started_A)
   \<and> file_interrupted latin1 session_interrupted 0 (ustr ''a.txt'') started_A
   \<and> snd (perform_backup latin1 office session_interrupted empty_store) = Returns_False
   \<and> Notify Backup_Script_Interrupted Interrupted_by_user
        \<in> set (emitted empty_store (fst (perform_backup latin1 office session_interrupted empty_store)))
   \<and> primary (fst (perform_backup latin1 office session_interrupted empty_store))
        = [(temp, Folder [(ustr ''a.txt'', File [1] 1700003600)])]
   \<and> transfer_start latin1 office session_interrupted_cleanup empty_store
        = Some (new_files_A, started_A)
   \<and> cleanup_interrupted session_interrupted_cleanup
        (fst (download_loop latin1 office session_interrupted_cleanup 0 new_files_A started_A))
   \<and> snd (perform_backup latin1 office session_interrupted_cleanup empty_store) = Returns_False
   \<and> Notify Backup_Script_Interrupted Interrupted_by_user
        \<in> set (emitted empty_store
                 (fst (perform_backup latin1 office session_interrupted_cleanup empty_store)))
   \<and> primary (fst (perform_backup latin1 office session_interrupted_cleanup empty_store))
        = [(temp, Folder []), (ustr ''a.txt'', File [1, 2, 3] 1700000060),
           (ustr ''b_log.txt'', File [4, 5] 1700000000)]
   \<and> roots (fst (perform_backup latin1 office session_interrupted_cleanup empty_store))
        = [(ustr ''E:/mirror'', []), (ustr ''F:/mirror'', [])]
   \<and> transfer_start latin1 office session_interrupted_copy empty_store
        = Some (new_files_A, started_A)
   \<and> mirror_interrupted session_interrupted_copy (secondary_backup_paths office)
        (fst (cleanup_temp_directory session_interrupted_copy
           (fst (download_loop latin1 office session_interrupted_copy 0 new_files_A started_A))))
   \<and> snd (perform_backup latin1 office session_interrupted_copy empty_store) = Returns_False
   \<and> Notify Backup_Script_Interrupted Interrupted_by_user
        \<in> set (emitted empty_store
                 (fst (perform_backup latin1 office session_interrupted_copy empty_store)))
   \<and> roots (fst (perform_backup latin1 office session_interrupted_copy empty_store))
        = [(ustr ''E:/mirror'', [(ustr ''a.txt'', File [1, 2, 3] 1700003600),
                                 (ustr ''b_log.txt'', File [4] 1700003600)]),
           (ustr ''F:/mirror'', [])]"
proof -
  note l = listing_A0_new [unfolded ustr_def cp_def, simplified]
  note defs = run_defs session_A0_def session_A_def sanitize_filename_map isalnum_def
    new_files_A_def started_A_def
  have ts: "transfer_start latin1 office session_interrupted empty_store
              = Some (new_files_A, started_A)"
    "transfer_start latin1 office session_interrupted_cleanup empty_store
              = Some (new_files_A, started_A)"
    "transfer_start latin1 office session_interrupted_copy empty_store
              = Some (new_files_A, started_A)"
    using l
    by (simp_all add: transfer_start_def defs session_interrupted_def
          session_interrupted_cleanup_def session_interrupted_copy_def)
  have h1: "file_interrupted latin1 session_interrupted 0 (ustr ''a.txt'') started_A"
    by (simp add: file_interrupted_def defs session_interrupted_def)
  have h2: "cleanup_interrupted session_interrupted_cleanup
        (fst (download_loop latin1 office session_interrupted_cleanup 0 new_files_A started_A))"
    by (simp add: cleanup_interrupted_def defs session_interrupted_cleanup_def)
  have h3: "mirror_interrupted session_interrupted_copy (secondary_backup_paths office)
        (fst (cleanup_temp_directory session_interrupted_copy
           (fst (download_loop latin1 office session_interrupted_copy 0 new_files_A started_A))))"
    by (simp add: mirror_interrupted_def defs session_interrupted_copy_def)
  have n2: "\<forall>j s. file_fault session_interrupted_cleanup j \<noteq> Some (s, Interrupted)"
    and n3: "\<forall>j s. file_fault session_interrupted_copy j \<noteq> Some (s, Interrupted)"
    "\<forall>stage. cleanup_fault session_interrupted_copy \<noteq> Some (stage, Interrupted)"
    by (simp_all add: session_interrupted_cleanup_def session_interrupted_copy_def
          session_A0_def session_A_def calm_session_def)
  have r1: "perform_backup latin1 office session_interrupted empty_store
     = (fst (perform_backup latin1 office session_interrupted empty_store),
        snd (perform_backup latin1 office session_interrupted empty_store))" by simp
  have r2: "perform_backup latin1 office session_interrupted_cleanup empty_store
     = (fst (perform_backup latin1 office session_interrupted_cleanup empty_store),
        snd (perform_backup latin1 office session_interrupted_cleanup empty_store))" by simp
  have r3: "perform_backup latin1 office session_interrupted_copy empty_store
     = (fst (perform_backup latin1 office session_interrupted_copy empty_store),
        snd (perform_backup latin1 office session_interrupted_copy empty_store))" by simp
  have k: "(0::nat) < length new_files_A" "fst (new_files_A ! 0) = ustr ''a.txt''"
    by (simp_all add: new_files_A_def)
  have h1': "file_interrupted latin1 session_interrupted 0 (fst (new_files_A ! 0))
      (fst (download_loop latin1 office session_interrupted 0 (take 0 new_files_A) started_A))"
    using h1 k by simp
  have b0: "\<forall>j<(0::nat). \<forall>s. file_fault session_interrupted j \<noteq> Some (s, Interrupted)"
    by simp
  from perform_backup_reports [OF r1, where new_files = new_files_A and started = started_A
      and k = 0] ts(1) h1' k(1) b0
  have c1: "snd (perform_backup latin1 office session_interrupted empty_store) = Returns_False
    \<and> Notify Backup_Script_Interrupted Interrupted_by_user
        \<in> set (emitted empty_store (fst (perform_backup latin1 office session_interrupted empty_store)))"
    by blast
  from perform_backup_reports [OF r2, where new_files = new_files_A and started = started_A]
    ts(2) h2 n2
  have c2: "snd (perform_backup latin1 office session_interrupted_cleanup empty_store) = Returns_False
    \<and> Notify Backup_Script_Interrupted Interrupted_by_user
        \<in> set (emitted empty_store
                 (fst (perform_backup latin1 office session_interrupted_cleanup empty_store)))"
    by blast
  from perform_backup_reports [OF r3, where new_files = new_files_A and started = started_A]
    ts(3) h3 n3
  have c3: "snd (perform_backup latin1 office session_interrupted_copy empty_store) = Returns_False
    \<and> Notify Backup_Script_Interrupted Interrupted_by_user
        \<in> set (emitted empty_store
                 (fst (perform_backup latin1 office session_interrupted_copy empty_store)))"
    by blast
  have p1: "primary (fst (perform_backup latin1 office session_interrupted empty_store))
        = [(temp, Folder [(ustr ''a.txt'', File [1] 1700003600)])]"
    using l by (simp add: defs session_interrupted_def)
  have p2: "primary (fst (perform_backup latin1 office session_interrupted_cleanup empty_store))
        = [(temp, Folder []), (ustr ''a.txt'', File [1, 2, 3] 1700000060),
           (ustr ''b_log.txt'', File [4, 5] 1700000000)]"
    "roots (fst (perform_backup latin1 office session_interrupted_cleanup empty_store))
        = [(ustr ''E:/mirror'', []), (ustr ''F:/mirror'', [])]"
    using l by (simp_all add: defs session_interrupted_cleanup_def)
  have p3: "roots (fst (perform_backup latin1 office session_interrupted_copy empty_store))
        = [(ustr ''E:/mirror'', [(ustr ''a.txt'', File [1, 2, 3] 1700003600),
                                 (ustr ''b_log.txt'', File [4] 1700003600)]),
           (ustr ''F:/mirror'', [])]"
    using l by (simp add: defs session_interrupted_copy_def)
  from ts h1 h2 h3 c1 c2 c3 p1 p2 p3 show ?thesis by blast
qed

text \<open>
  C9 as stated fails: the run interrupted during its first download and the run whose
  connection is refused return the same value.
\<close>

theorem interrupted_returns_like_failed:
  "snd (perform_backup latin1 office session_interrupted empty_store) = Returns_False
   \<and> snd (perform_backup latin1 office session_rejected empty_store) = Returns_False"
proof -
  show ?thesis
    using listing_A0_new [unfolded ustr_def cp_def, simplified]
    by (simp add: run_defs session_interrupted_def session_rejected_def session_A0_def session_A_def
          sanitize_filename_map isalnum_def)
qed

section \<open>Scenario A\<close>

text \<open>
  When no name of the listing has white space, the lines of \<open>ls\<close> are read as intended and
  a whole pull behaves as scenario A asks: with \<open>a.txt\<close> and \<open>b#log.txt\<close> on the server, at
  times that \<open>int\<close> reads and the filesystem records, the first pull stores \<open>a.txt\<close> and
  \<open>b_log.txt\<close> with these times, and the second finds nothing new and transfers nothing.
\<close>

lemma pull_without_white_space:
  assumes "\<not> over_digit_limit py (length (decimal t1))"
    and "\<not> over_digit_limit py (length (decimal t2))"
    and "t1 \<le> 15032385535" and "t2 \<le> 15032385535"
  shows "snd (perform_backup py office (session_A t1 t2 c1 c2) empty_store) = Returns_True
     \<and> set (primary (fst (perform_backup py office (session_A t1 t2 c1 c2) empty_store)))
           = {(ustr ''a.txt'', File c1 (int t1)), (ustr ''b_log.txt'', File c2 (int t2))}
     \<and> length (primary (fst (perform_backup py office (session_A t1 t2 c1 c2) empty_store))) = 2
     \<and> snd (perform_backup py office (session_A t1 t2 c1 c2)
               (fst (perform_backup py office (session_A t1 t2 c1 c2) empty_store))) = Returns_None
     \<and> primary (fst (perform_backup py office (session_A t1 t2 c1 c2)
               (fst (perform_backup py office (session_A t1 t2 c1 c2) empty_store))))
           = primary (fst (perform_backup py office (session_A t1 t2 c1 c2) empty_store))
     \<and> filter is_transfer
          (emitted (fst (perform_backup py office (session_A t1 t2 c1 c2) empty_store))
             (fst (perform_backup py office (session_A t1 t2 c1 c2)
                (fst (perform_backup py office (session_A t1 t2 c1 c2) empty_store))))) = []"
proof -
  note p = first_pull(2) [OF assms, of c1 c2]
  have "set (primary (fst (perform_backup py office (session_A t1 t2 c1 c2) empty_store)))
           = {(ustr ''a.txt'', File c1 (int t1)), (ustr ''b_log.txt'', File c2 (int t2))}"
    unfolding p by auto
  moreover have
    "length (primary (fst (perform_backup py office (session_A t1 t2 c1 c2) empty_store))) = 2"
    unfolding p by simp
  ultimately show ?thesis
    using first_pull(1) [OF assms] second_pull [OF assms] by simp
qed

text \<open>
  C3 (as amended): given the entries \<open>a.txt\<close> (time \<open>t1\<close>) and \<open>b log.txt\<close> (time \<open>t2\<close>) of
  the remote listing and an empty primary root, with no failure during the run and
  times that \<open>os.utime\<close> accepts and the filesystem records as they are, the pull creates
  the staging directory and its transfer phase returns True and leaves in the primary
  root exactly the files \<open>a.txt\<close> and \<open>b log.txt\<close>, the second under its own name, since
  \<open>sanitize_filename\<close> keeps a space, with the contents of the remote files and the times
  \<open>t1\<close> and \<open>t2\<close>. Against that primary root the test of line 171 selects none of the two
  entries, and the loop over the new files, given them again, skips both as already
  present and transfers nothing: a second pull has nothing to download. The entries are
  taken as lines 166 to 172 are meant to collect them; the reading of the line of a name
  with white space is what C2 is about.
\<close>

theorem pull_scenario_A:
  assumes n: "nothing_fails e"
    and f: "fetch e (ustr ''a.txt'') = Some c1" "fetch e (ustr ''b log.txt'') = Some c2"
    and t: "records e t1" "records e t2"
  shows "snd (make_temp e empty_store) = None
     \<and> snd (transfer py office e (entries_A t1 t2) (fst (make_temp e empty_store))) = Returns_True
     \<and> primary (fst (transfer py office e (entries_A t1 t2) (fst (make_temp e empty_store))))
         = [(ustr ''a.txt'', File c1 t1), (ustr ''b log.txt'', File c2 t2)]
     \<and> filter (\<lambda>f. sanitize_filename py (fst f)
                    \<notin> set (listdir (primary (fst (transfer py office e (entries_A t1 t2)
                                                    (fst (make_temp e empty_store)))))))
          (entries_A t1 t2) = []
     \<and> filter is_transfer
          (emitted (fst (transfer py office e (entries_A t1 t2) (fst (make_temp e empty_store))))
             (fst (download_loop py office e 0 (entries_A t1 t2)
                (fst (transfer py office e (entries_A t1 t2) (fst (make_temp e empty_store)))))))
         = []"
proof -
  from n have n': "setup_fault e = None" "\<And>i. file_fault e i = None" "cleanup_fault e = None"
    "\<And>p f. copy_fault e p f = None"
    by (simp_all add: nothing_fails_def)
  from t have t': "stored_mtime e t1 = Some t1" "stored_mtime e t2 = Some t2"
    "\<not> t1 < - (2 ^ 63)" "\<not> 2 ^ 63 \<le> t1" "\<not> t2 < - (2 ^ 63)" "\<not> 2 ^ 63 \<le> t2"
    by (simp_all add: records_def)
  note f' = f [unfolded ustr_def cp_def, simplified]
  show ?thesis
    using n' t' f'
    by (simp add: run_defs entries_A_def sanitize_filename_map isalnum_def)
qed

theorem pull_scenario_A_witness:
  "nothing_fails session_A_spaced
   \<and> fetch session_A_spaced (ustr ''a.txt'') = Some [1, 2, 3]
   \<and> fetch session_A_spaced (ustr ''b log.txt'') = Some [4, 5]
   \<and> records session_A_spaced 1700000060 \<and> records session_A_spaced 1700000000
   \<and> snd (transfer latin1 office session_A_spaced (entries_A 1700000060 1700000000)
             (fst (make_temp session_A_spaced empty_store))) = Returns_True
   \<and> primary (fst (transfer latin1 office session_A_spaced (entries_A 1700000060 1700000000)
                      (fst (make_temp session_A_spaced empty_store))))
       = [(ustr ''a.txt'', File [1, 2, 3] 1700000060), (ustr ''b log.txt'', File [4, 5] 1700000000)]"
proof -
  have n: "nothing_fails session_A_spaced"
    by (simp add: nothing_fails_def session_A_spaced_def calm_session_def)
  have f: "fetch session_A_spaced (ustr ''a.txt'') = Some [1, 2, 3]"
    "fetch session_A_spaced (ustr ''b log.txt'') = Some [4, 5]"
    by (simp_all add: session_A_spaced_def calm_session_def ustr_def cp_def)
  have t: "records session_A_spaced 1700000060" "records session_A_spaced 1700000000"
    by (simp_all add: records_def session_A_spaced_def calm_session_def clamped_time_def)
  from pull_scenario_A [OF n f t, of latin1] n f t show ?thesis by simp
qed

text \<open>
  C3 as stated fails: \<open>sanitize_filename\<close> keeps the space of \<open>b log.txt\<close>, so that the
  transfer of the two entries leaves \<open>a.txt\<close> and \<open>b log.txt\<close> and no file \<open>b_log.txt\<close>; and
  the pull on the lines that \<open>ls\<close> prints for the two files stops with ValueError before
  anything is downloaded.
\<close>

theorem pull_scenario_spaced_name:
  "sanitize_filename latin1 (ustr ''b log.txt'') = ustr ''b log.txt''
   \<and> listdir (primary (fst (transfer latin1 office session_A_spaced
                               (entries_A 1700000060 1700000000)
                               (fst (make_temp session_A_spaced empty_store)))))
        = [ustr ''a.txt'', ustr ''b log.txt'']
   \<and> snd (perform_backup latin1 office session_A_spaced empty_store) = Raises ValueError
   \<and> primary (fst (perform_backup latin1 office session_A_spaced empty_store)) = []"
proof -
  have l: "select_new_files latin1 [] listing_A_spaced = Inl ValueError"
    by (simp add: listing_A_spaced_def parse_defs ustr_def cp_def ten_digits latin1_def)
  show ?thesis
    using l [unfolded ustr_def cp_def, simplified]
    by (simp add: run_defs session_A_spaced_def entries_A_def sanitize_filename_map isalnum_def)
qed

end
